theory Spec2Isabelle
  imports Main "HOL-Library.Sublist"
begin

section \<open>Wire values\<close>

text \<open>
  The handlers answer with \<^verbatim>\<open>res.json(obj)\<close> or \<^verbatim>\<open>res.status(n).send(text)\<close>.
  A JSON object keeps its keys in the order the source writes them. Session tokens
  and password hashes come from the libraries \<^verbatim>\<open>jsonwebtoken\<close> and \<^verbatim>\<open>bcryptjs\<close>; they are
  kept symbolic: a token records the subject, the signing key and the expiry it was
  signed with, a hash records the salt and the secret it was computed from.
\<close>

datatype token = Jwt (tok_sub: nat) (tok_key: string) (tok_exp: nat) | Malformed string

datatype pwhash = Bcrypt (hash_salt: string) (hash_secret: string)

datatype json =
    JNull
  | JNum int
  | JStr string
  | JTok token
  | JObj "(string \<times> json) list"
  | JArr "json list"

datatype body = JsonBody json | TextBody string

record response =
  status :: nat
  body :: body

definition res_json :: "json \<Rightarrow> response" where
  "res_json j = \<lparr>status = 200, body = JsonBody j\<rparr>"

definition res_status_json :: "nat \<Rightarrow> json \<Rightarrow> response" where
  "res_status_json n j = \<lparr>status = n, body = JsonBody j\<rparr>"

definition res_status_send :: "nat \<Rightarrow> string \<Rightarrow> response" where
  "res_status_send n t = \<lparr>status = n, body = TextBody t\<rparr>"

definition msg :: "string \<Rightarrow> json" where
  "msg m = JObj [(''msg'', JStr m)]"

text \<open>Reading a key of a JSON object; anything else has no keys.\<close>

fun field :: "string \<Rightarrow> json \<Rightarrow> json option" where
  "field k (JObj kvs) = map_of kvs k"
| "field k _ = None"

fun body_field :: "string \<Rightarrow> body \<Rightarrow> json option" where
  "body_field k (JsonBody j) = field k j"
| "body_field k (TextBody _) = None"

section \<open>Levels (routes/papers.js, upload, lines 91-97; updateLevel in the page script)\<close>

text \<open>
  \<^verbatim>\<open>let newPoints = (user.points || 0) + 50\<close>: a null (or zero) point total counts as 0.
  The column \<^verbatim>\<open>points int default 0\<close> is nullable, so the stored value is an optional integer.
\<close>

definition newPoints :: "int option \<Rightarrow> int" where
  "newPoints p = (case p of None \<Rightarrow> 0 | Some n \<Rightarrow> (if n = 0 then 0 else n)) + 50"

text \<open>
  \<^verbatim>\<open>let newLevel = user.level; if (newPoints >= 4000) ... else if (newPoints >= 1000) newLevel = 'Silver'\<close>:
  there is no final \<^verbatim>\<open>else\<close>, below 1000 the level read from the store is written back.
\<close>

definition newLevel :: "int \<Rightarrow> string option \<Rightarrow> string option" where
  "newLevel np lvl =
     (if np \<ge> 4000 then Some ''Legendary''
      else if np \<ge> 3000 then Some ''Diamond''
      else if np \<ge> 2000 then Some ''Gold''
      else if np \<ge> 1000 then Some ''Silver''
      else lvl)"

text \<open>
  The level table as the specification words it (a function of the point total alone):
  Silver below 2000, Gold from 2000, Diamond from 3000, Legendary from 4000.
\<close>

definition spec_level :: "int \<Rightarrow> string" where
  "spec_level p =
     (if p \<ge> 4000 then ''Legendary''
      else if p \<ge> 3000 then ''Diamond''
      else if p \<ge> 2000 then ''Gold''
      else ''Silver'')"

text \<open>The order of the tiers, for "never decreases"; a null or unknown level ranks lowest.\<close>

definition level_rank :: "string option \<Rightarrow> nat" where
  "level_rank l =
     (if l = Some ''Legendary'' then 3
      else if l = Some ''Diamond'' then 2
      else if l = Some ''Gold'' then 1
      else 0)"

section \<open>One-time codes (routes/auth.js, send-otp, line 106)\<close>

text \<open>
  \<^verbatim>\<open>Math.floor(100000 + Math.random() * 900000).toString()\<close>. The numbers of this
  expression are doubles. A double is written here as a pair \<open>(m, p)\<close> that stands for
  \<open>m / 2 ^ p\<close>. \<^verbatim>\<open>Math.random()\<close> draws a double that is at least 0 and below 1: a pair with
  \<open>m < 2 ^ 53\<close>, \<open>m < 2 ^ p\<close> and \<open>p \<le> 1074\<close>, and every double of that range is such a pair.
  The product and the sum of doubles are the exact results rounded to 53 significant bits,
  a tie going to the even neighbour: on numerators over the same \<open>2 ^ p\<close> that is
  \<open>round53\<close>. (Within this expression a result below the normal range is exact, and
  nothing overflows.) \<^verbatim>\<open>toString\<close> of an integer writes its decimal digits, with a sign
  when it is negative.
\<close>

function bit_length :: "nat \<Rightarrow> nat" where
  "bit_length n = (if n = 0 then 0 else Suc (bit_length (n div 2)))"
  by pat_completeness auto
termination
  by (relation "measure (\<lambda>n. n)") auto

declare bit_length.simps [simp del]

definition round53 :: "nat \<Rightarrow> nat" where
  "round53 n =
     (let sh = bit_length n - 53; q = n div 2 ^ sh; r = n mod 2 ^ sh
      in if 2 * r < 2 ^ sh \<or> (2 * r = 2 ^ sh \<and> even q) then q * 2 ^ sh else (q + 1) * 2 ^ sh)"

type_synonym dbl = "nat \<times> nat"

definition is_draw :: "dbl \<Rightarrow> bool" where
  "is_draw r = (case r of (m, p) \<Rightarrow> m < 2 ^ 53 \<and> m < 2 ^ p \<and> p \<le> 1074)"

definition dbl_times :: "dbl \<Rightarrow> nat \<Rightarrow> dbl" where
  "dbl_times r c = (case r of (m, p) \<Rightarrow> (round53 (m * c), p))"

definition dbl_plus :: "nat \<Rightarrow> dbl \<Rightarrow> dbl" where
  "dbl_plus c r = (case r of (m, p) \<Rightarrow> (round53 (c * 2 ^ p + m), p))"

definition dbl_floor :: "dbl \<Rightarrow> nat" where
  "dbl_floor r = (case r of (m, p) \<Rightarrow> m div 2 ^ p)"

definition digit_char :: "nat \<Rightarrow> char" where
  "digit_char d = char_of (48 + d)"

function digits :: "nat \<Rightarrow> string" where
  "digits n = (if n < 10 then [digit_char n] else digits (n div 10) @ [digit_char (n mod 10)])"
  by pat_completeness auto
termination
  by (relation "measure (\<lambda>n. n)") auto

declare digits.simps [simp del]

definition toString :: "int \<Rightarrow> string" where
  "toString i = (if i < 0 then CHR ''-'' # digits (nat (- i)) else digits (nat i))"

definition otp_number :: "dbl \<Rightarrow> nat" where
  "otp_number r = dbl_floor (dbl_plus 100000 (dbl_times r 900000))"

definition gen_otp :: "dbl \<Rightarrow> string" where
  "gen_otp r = toString (int (otp_number r))"

definition is_digit :: "char \<Rightarrow> bool" where
  "is_digit c = (c \<in> set ''0123456789'')"

definition six_digit :: "string \<Rightarrow> bool" where
  "six_digit s = (length s = 6 \<and> list_all is_digit s)"

section \<open>The store (server/db_schema.sql) and what the handlers cannot decide\<close>

text \<open>
  Rows follow the schema. A \<^verbatim>\<open>uuid\<close> is a natural number. The columns \<^verbatim>\<open>points\<close>,
  \<^verbatim>\<open>level\<close> and \<^verbatim>\<open>profile_pic\<close> carry a default and no \<^verbatim>\<open>not null\<close>, so they are
  optional. The table \<^verbatim>\<open>otp_codes\<close> is used by the handlers with the columns below; the
  storage bucket \<^verbatim>\<open>papers\<close> maps a path to the stored bytes.
\<close>

record user_row =
  u_id :: nat
  first_name :: string
  last_name :: string
  email :: string
  phone :: string
  password :: pwhash
  points :: "int option"
  level :: "string option"
  profile_pic :: "string option"
  u_created_at :: nat

record paper_row =
  p_id :: nat
  subject :: string
  course_code :: string
  exam_year :: string
  exam_name :: string
  category :: string
  file_path :: string
  uploader_id :: nat
  p_created_at :: nat

record otp_row =
  o_email :: string
  otp :: string
  o_created_at :: nat

record db =
  users :: "user_row list"
  papers :: "paper_row list"
  otp_codes :: "otp_row list"
  bucket :: "(string \<times> string) list"

text \<open>
  Everything a handler reads from outside the store: the clock (\<^verbatim>\<open>Date.now()\<close>, in
  milliseconds), \<^verbatim>\<open>process.env.JWT_SECRET\<close>, the salt \<^verbatim>\<open>bcryptjs\<close> draws, the draw of
  \<^verbatim>\<open>Math.random()\<close>, the identifier \<^verbatim>\<open>gen_random_uuid()\<close> gives the next inserted row, the
  base of the bucket's public URLs, the \<^verbatim>\<open>lower()\<close> of the store (it folds text by the locale
  of the database), and \<open>fails\<close>: the numbers of the store calls of this request (counted
  in program order from 1) that fail for a reason outside the model (network,
  permissions). A store call answers \<^verbatim>\<open>{ data, error }\<close> and never throws.
\<close>

record env =
  now :: nat
  jwt_secret :: "string option"
  salt :: string
  random :: dbl
  new_id :: nat
  storage_url :: string
  db_lower :: "string \<Rightarrow> string"
  fails :: "nat list"

type_synonym 'a reply = "string option \<times> 'a option"

definition call :: "env \<Rightarrow> nat \<Rightarrow> 'a reply \<Rightarrow> 'a reply" where
  "call e k r = (if k \<in> set (fails e) then (Some ''request failed'', None) else r)"

text \<open>\<^verbatim>\<open>.single()\<close>: the row when exactly one row is selected, an error and no data otherwise.\<close>

definition single :: "'a list \<Rightarrow> 'a reply" where
  "single rows = (case rows of [x] \<Rightarrow> (None, Some x) | _ \<Rightarrow> (Some ''PGRST116'', None))"

text \<open>
  \<^verbatim>\<open>insert\<close> into \<^verbatim>\<open>users\<close>: the defaults fill the columns the handler leaves out; the
  primary key and \<^verbatim>\<open>email text not null unique\<close> (an exact, case-sensitive comparison of
  text) reject a duplicate.
\<close>

definition insert_user ::
  "env \<Rightarrow> nat \<Rightarrow> string \<Rightarrow> string \<Rightarrow> string \<Rightarrow> string \<Rightarrow> pwhash \<Rightarrow> db \<Rightarrow> user_row reply \<times> db" where
  "insert_user e k fname lname em ph pw s =
     (let row = \<lparr>u_id = new_id e, first_name = fname, last_name = lname, email = em, phone = ph,
                   password = pw, points = Some 0, level = Some ''Silver'',
                   profile_pic = Some [], u_created_at = now e\<rparr>
      in if k \<in> set (fails e) then ((Some ''request failed'', None), s)
         else if em \<in> set (map email (users s)) \<or> new_id e \<in> set (map u_id (users s))
         then ((Some ''23505'', None), s)
         else ((None, Some row), s\<lparr>users := users s @ [row]\<rparr>))"

text \<open>
  \<^verbatim>\<open>update\<close> of \<^verbatim>\<open>users\<close> rows. The reply is returned, the handlers of the upload ignore it.
  \<^verbatim>\<open>points int\<close> is a 32-bit column: a value outside its range is rejected and nothing is written.
\<close>

definition int4 :: "int \<Rightarrow> bool" where
  "int4 n = (- 2147483648 \<le> n \<and> n \<le> 2147483647)"

definition update_points ::
  "env \<Rightarrow> nat \<Rightarrow> nat \<Rightarrow> int \<Rightarrow> string option \<Rightarrow> db \<Rightarrow> unit reply \<times> db" where
  "update_points e k uid np nl s =
     (if k \<in> set (fails e) then ((Some ''request failed'', None), s)
      else if \<not> int4 np then ((Some ''22003'', None), s)
      else ((None, None),
            s\<lparr>users := map (\<lambda>u. if u_id u = uid then u\<lparr>points := Some np, level := nl\<rparr> else u) (users s)\<rparr>))"

definition update_password :: "env \<Rightarrow> nat \<Rightarrow> string \<Rightarrow> pwhash \<Rightarrow> db \<Rightarrow> unit reply \<times> db" where
  "update_password e k em h s =
     (if k \<in> set (fails e) then ((Some ''request failed'', None), s)
      else ((None, None),
            s\<lparr>users := map (\<lambda>u. if email u = em then u\<lparr>password := h\<rparr> else u) (users s)\<rparr>))"

section \<open>Tokens and hashes (jsonwebtoken, bcryptjs)\<close>

text \<open>
  \<^verbatim>\<open>process.env.JWT_SECRET || 'secret'\<close>; \<^verbatim>\<open>jwt.sign(payload, key, { expiresIn: '1h' })\<close>;
  \<^verbatim>\<open>jwt.verify\<close> throws on a wrong key, a malformed token or an expired one (the clock in
  seconds at or past the expiry). \<^verbatim>\<open>bcryptjs\<close> reads the first 72 bytes of a secret.
\<close>

definition jwt_key :: "env \<Rightarrow> string" where
  "jwt_key e = (case jwt_secret e of None \<Rightarrow> ''secret'' | Some k \<Rightarrow> if k = [] then ''secret'' else k)"

definition jwt_sign :: "nat \<Rightarrow> string \<Rightarrow> nat \<Rightarrow> token" where
  "jwt_sign uid key t = Jwt uid key (t div 1000 + 3600)"

fun jwt_verify :: "token \<Rightarrow> string \<Rightarrow> nat \<Rightarrow> nat option" where
  "jwt_verify (Jwt uid k ex) key t = (if k = key \<and> t div 1000 < ex then Some uid else None)"
| "jwt_verify (Malformed _) key t = None"

definition bcrypt_hash :: "string \<Rightarrow> string \<Rightarrow> pwhash" where
  "bcrypt_hash pw sl = Bcrypt sl (take 72 pw)"

definition bcrypt_compare :: "string \<Rightarrow> pwhash \<Rightarrow> bool" where
  "bcrypt_compare pw h = (take 72 pw = hash_secret h)"

section \<open>routes/auth.js\<close>

text \<open>
  The handlers of this file (the version whose key is \<^verbatim>\<open>process.env.JWT_SECRET || 'secret'\<close>
  for signup and login; send-otp, verify-otp and reset-password from the version that has
  them). The fields of a request body are taken as present strings.

  \<^verbatim>\<open>router.post('/signup')\<close>. Call 1 is the existence check, call 2 the insert. An error of
  the insert is thrown and answered by the \<^verbatim>\<open>catch\<close>, as is reading \<^verbatim>\<open>newUser.id\<close> of a null row.
\<close>

definition signup ::
  "env \<Rightarrow> string \<Rightarrow> string \<Rightarrow> string \<Rightarrow> string \<Rightarrow> string \<Rightarrow> db \<Rightarrow> response \<times> db" where
  "signup e firstName lastName email' phone' password' s =
     (case call e 1 (single (filter (\<lambda>u. email u = email') (users s))) of
        (_, Some existingUser) \<Rightarrow> (res_status_json 400 (msg ''User already exists''), s)
      | (_, None) \<Rightarrow>
          (let hashedPassword = bcrypt_hash password' (salt e) in
           case insert_user e 2 firstName lastName email' phone' hashedPassword s of
             ((Some error, _), s') \<Rightarrow> (res_status_send 500 ''Server error'', s')
           | ((None, None), s') \<Rightarrow> (res_status_send 500 ''Server error'', s')
           | ((None, Some newUser), s') \<Rightarrow>
               (res_json (JObj [(''token'', JTok (jwt_sign (u_id newUser) (jwt_key e) (now e)))]), s')))"

text \<open>\<^verbatim>\<open>router.post('/login')\<close>. Call 1 is the lookup by email.\<close>

definition login :: "env \<Rightarrow> string \<Rightarrow> string \<Rightarrow> db \<Rightarrow> response \<times> db" where
  "login e email' password' s =
     (case call e 1 (single (filter (\<lambda>u. email u = email') (users s))) of
        (_, None) \<Rightarrow> (res_status_json 400 (msg ''Invalid Credentials''), s)
      | (_, Some user) \<Rightarrow>
          if \<not> bcrypt_compare password' (password user)
          then (res_status_json 400 (msg ''Invalid Credentials''), s)
          else (res_json (JObj [(''token'', JTok (jwt_sign (u_id user) (jwt_key e) (now e)))]), s))"

text \<open>
  \<^verbatim>\<open>router.post('/send-otp')\<close>. Call 1 is the insert into \<^verbatim>\<open>otp_codes\<close>. The source notes
  above its answer: \<^verbatim>\<open>// NOTE: In production REMOVE otp from response\<close>.
\<close>

definition send_otp :: "env \<Rightarrow> string \<Rightarrow> db \<Rightarrow> response \<times> db" where
  "send_otp e email' s =
     (let otp' = gen_otp (random e) in
      if 1 \<in> set (fails e) then (res_status_json 500 (msg ''Failed to send OTP''), s)
      else (res_json (JObj [(''msg'', JStr ''OTP sent successfully''), (''otp'', JStr otp')]),
            s\<lparr>otp_codes := otp_codes s @ [\<lparr>o_email = email', otp = otp', o_created_at = now e\<rparr>]\<rparr>))"

text \<open>
  \<^verbatim>\<open>router.post('/verify-otp')\<close>. Call 1 selects the rows with this email and code, newest
  first, at most one. Nothing is written.
\<close>

definition newest_first :: "otp_row list \<Rightarrow> otp_row list" where
  "newest_first rows = rev (sort_key o_created_at rows)"

definition verify_otp :: "env \<Rightarrow> string \<Rightarrow> string \<Rightarrow> db \<Rightarrow> response \<times> db" where
  "verify_otp e email' otp' s =
     (case call e 1 (single (take 1 (newest_first
              (filter (\<lambda>r. o_email r = email' \<and> otp r = otp') (otp_codes s))))) of
        (_, None) \<Rightarrow> (res_status_json 400 (msg ''Invalid OTP''), s)
      | (_, Some data) \<Rightarrow> (res_json (msg ''OTP verified''), s))"

text \<open>
  \<^verbatim>\<open>router.post('/reset-password')\<close>. The body carries \<^verbatim>\<open>email\<close> and \<^verbatim>\<open>newPassword\<close> only.
  Call 1 is the update of the rows with this email.
\<close>

definition reset_password :: "env \<Rightarrow> string \<Rightarrow> string \<Rightarrow> db \<Rightarrow> response \<times> db" where
  "reset_password e email' newPassword s =
     (let hashed = bcrypt_hash newPassword (salt e) in
      case update_password e 1 email' hashed s of
        ((Some error, _), s') \<Rightarrow> (res_status_json 500 (msg ''Failed to reset password''), s')
      | ((None, _), s') \<Rightarrow> (res_json (msg ''Password reset successful''), s'))"

section \<open>routes/papers.js\<close>

subsection \<open>The middleware\<close>

text \<open>\<^verbatim>\<open>auth\<close>: the header \<^verbatim>\<open>x-auth-token\<close>, verified; on success \<^verbatim>\<open>req.user.id\<close> is the subject.\<close>

definition auth :: "env \<Rightarrow> token option \<Rightarrow> response + nat" where
  "auth e tok =
     (case tok of
        None \<Rightarrow> Inl (res_status_json 401 (msg ''No token, authorization denied''))
      | Some t \<Rightarrow>
          (case jwt_verify t (jwt_key e) (now e) of
             None \<Rightarrow> Inl (res_status_json 400 (msg ''Token is not valid''))
           | Some uid \<Rightarrow> Inr uid))"

subsection \<open>Upload\<close>

record upload_file =
  originalname :: string
  buffer :: string
  mimetype :: string

text \<open>
  \<^verbatim>\<open>path.extname\<close>: from the last dot of the last path segment (trailing slashes aside);
  empty when there is no dot, when the only dot opens the segment, or for \<^verbatim>\<open>..\<close>.
\<close>

definition basename :: "string \<Rightarrow> string" where
  "basename p = rev (takeWhile (\<lambda>c. c \<noteq> CHR ''/'') (dropWhile (\<lambda>c. c = CHR ''/'') (rev p)))"

definition extname :: "string \<Rightarrow> string" where
  "extname p =
     (let b = basename p; ext = rev (takeWhile (\<lambda>c. c \<noteq> CHR ''.'') (rev b))
      in if CHR ''.'' \<notin> set b \<or> length ext + 1 = length b \<or> b = ''..'' then []
         else CHR ''.'' # ext)"

text \<open>
  \<^verbatim>\<open>supabase.storage.from('papers').upload(path, bytes)\<close> does not overwrite: a path already
  in the bucket is an error. \<^verbatim>\<open>getPublicUrl\<close> builds the URL and calls nothing.
\<close>

definition storage_upload :: "env \<Rightarrow> nat \<Rightarrow> string \<Rightarrow> string \<Rightarrow> db \<Rightarrow> string reply \<times> db" where
  "storage_upload e k path bytes s =
     (if k \<in> set (fails e) then ((Some ''request failed'', None), s)
      else if path \<in> set (map fst (bucket s)) then ((Some ''Duplicate'', None), s)
      else ((None, Some path), s\<lparr>bucket := bucket s @ [(path, bytes)]\<rparr>))"

definition getPublicUrl :: "env \<Rightarrow> string \<Rightarrow> string" where
  "getPublicUrl e path = storage_url e @ ''/object/public/papers/'' @ path"

text \<open>
  \<^verbatim>\<open>insert\<close> into \<^verbatim>\<open>papers\<close>. A field the multipart body lacks is \<^verbatim>\<open>undefined\<close> and left out
  of the row, which its \<^verbatim>\<open>not null\<close> column rejects; \<^verbatim>\<open>uploader_id\<close> references \<^verbatim>\<open>users(id)\<close>.
\<close>

definition insert_paper ::
  "env \<Rightarrow> nat \<Rightarrow> string option \<Rightarrow> string option \<Rightarrow> string option \<Rightarrow> string option \<Rightarrow> string option
     \<Rightarrow> string \<Rightarrow> nat \<Rightarrow> db \<Rightarrow> paper_row reply \<times> db" where
  "insert_paper e k sub cc ey en cat url uid s =
     (if k \<in> set (fails e) then ((Some ''request failed'', None), s)
      else
        (case (sub, cc, ey, en, cat) of
           (Some sub', Some cc', Some ey', Some en', Some cat') \<Rightarrow>
             if uid \<notin> set (map u_id (users s)) then ((Some ''23503'', None), s)
             else if new_id e \<in> set (map p_id (papers s)) then ((Some ''23505'', None), s)
             else
               (let row = \<lparr>p_id = new_id e, subject = sub', course_code = cc', exam_year = ey',
                             exam_name = en', category = cat', file_path = url, uploader_id = uid,
                             p_created_at = now e\<rparr>
                in ((None, Some row), s\<lparr>papers := papers s @ [row]\<rparr>))
         | _ \<Rightarrow> ((Some ''23502'', None), s)))"

text \<open>
  Step 3 of the handler, "Update User Points", in its two store calls. Lines 84-88: call 3
  reads \<^verbatim>\<open>points, level\<close> of the row with the uploader's id. Lines 90-103: under the guard
  \<^verbatim>\<open>!userError && user\<close>, call 4 writes the new total and level; its reply is not read.
\<close>

definition fetch_points :: "env \<Rightarrow> nat \<Rightarrow> db \<Rightarrow> (int option \<times> string option) reply" where
  "fetch_points e uid s =
     call e 3 (single (map (\<lambda>u. (points u, level u)) (filter (\<lambda>u. u_id u = uid) (users s))))"

definition store_points :: "env \<Rightarrow> nat \<Rightarrow> (int option \<times> string option) reply \<Rightarrow> db \<Rightarrow> db" where
  "store_points e uid r s =
     (case r of
        (None, Some (user_points, user_level)) \<Rightarrow>
          (let np = newPoints user_points; nl = newLevel np user_level
           in snd (update_points e 4 uid np nl s))
      | _ \<Rightarrow> s)"

definition responsePaper :: "paper_row \<Rightarrow> json" where
  "responsePaper newPaper =
     JObj [(''_id'', JNum (int (p_id newPaper))),
           (''id'', JNum (int (p_id newPaper))),
           (''subject'', JStr (subject newPaper)),
           (''courseCode'', JStr (course_code newPaper)),
           (''examYear'', JStr (exam_year newPaper)),
           (''examName'', JStr (exam_name newPaper)),
           (''category'', JStr (category newPaper)),
           (''filePath'', JStr (file_path newPaper)),
           (''uploader'', JNum (int (uploader_id newPaper)))]"

text \<open>
  \<^verbatim>\<open>router.post('/upload', [auth, upload.single('file')])\<close>. Call 1 writes the blob, call 2
  inserts the metadata, calls 3 and 4 are the points update. Reading \<^verbatim>\<open>newPaper.id\<close> of a
  null \<^verbatim>\<open>newPaper\<close> throws, which the \<^verbatim>\<open>catch\<close> answers.
\<close>

definition upload ::
  "env \<Rightarrow> token option \<Rightarrow> upload_file option \<Rightarrow> string option \<Rightarrow> string option \<Rightarrow> string option
     \<Rightarrow> string option \<Rightarrow> string option \<Rightarrow> db \<Rightarrow> response \<times> db" where
  "upload e tok file subject' courseCode examYear examName category' s =
     (case auth e tok of
        Inl r \<Rightarrow> (r, s)
      | Inr uid \<Rightarrow>
          (case file of
             None \<Rightarrow> (res_status_json 400 (msg ''No file uploaded''), s)
           | Some f \<Rightarrow>
               (let fileName = toString (int (now e)) @ extname (originalname f)
                in case storage_upload e 1 fileName (buffer f) s of
                     ((Some storageError, _), s1) \<Rightarrow> (res_status_send 500 ''Error uploading file'', s1)
                   | ((None, _), s1) \<Rightarrow>
                       (let publicUrl = getPublicUrl e fileName
                        in case insert_paper e 2 subject' courseCode examYear examName category'
                                  publicUrl uid s1 of
                             ((Some dbError, _), s2) \<Rightarrow>
                               (res_status_send 500 ''Error saving paper metadata'', s2)
                           | ((None, newPaper), s2) \<Rightarrow>
                               (let s3 = store_points e uid (fetch_points e uid s2) s2
                                in case newPaper of
                                     None \<Rightarrow> (res_status_send 500 ''Server error'', s3)
                                   | Some paper \<Rightarrow> (res_json (responsePaper paper), s3))))))"

subsection \<open>Uploads of one user in flight together\<close>

text \<open>
  A handler runs until its next \<^verbatim>\<open>await\<close>; between the two awaits of the points update any
  other request may run. A request in its points update is at one of three places: about
  to read, holding what it read, or done. A schedule names, step by step, the request
  that runs next.
\<close>

datatype award_pc = Fetching | Fetched "(int option \<times> string option) reply" | Finished

definition award_step :: "env \<Rightarrow> nat \<Rightarrow> award_pc \<Rightarrow> db \<Rightarrow> award_pc \<times> db" where
  "award_step e uid pc s =
     (case pc of
        Fetching \<Rightarrow> (Fetched (fetch_points e uid s), s)
      | Fetched r \<Rightarrow> (Finished, store_points e uid r s)
      | Finished \<Rightarrow> (Finished, s))"

fun run :: "nat list \<Rightarrow> (env \<times> nat \<times> award_pc) list \<Rightarrow> db \<Rightarrow> (env \<times> nat \<times> award_pc) list \<times> db" where
  "run [] ts s = (ts, s)"
| "run (i # sched) ts s =
     (if i < length ts
      then (case ts ! i of (e, uid, pc) \<Rightarrow>
              (case award_step e uid pc s of (pc', s') \<Rightarrow> run sched (ts[i := (e, uid, pc')]) s'))
      else run sched ts s)"

text \<open>One request after the other: each runs both of its steps before the next starts.\<close>

definition serial :: "nat \<Rightarrow> nat list" where
  "serial n = concat (map (\<lambda>i. [i, i]) [0..<n])"

definition all_finished :: "(env \<times> nat \<times> award_pc) list \<Rightarrow> bool" where
  "all_finished ts = list_all (\<lambda>t. snd (snd t) = Finished) ts"

definition points_of :: "nat \<Rightarrow> db \<Rightarrow> int option list" where
  "points_of uid s = map points (filter (\<lambda>u. u_id u = uid) (users s))"

text \<open>The number a stored total stands for, \<^verbatim>\<open>user.points || 0\<close>: a null total is 0.\<close>

definition total :: "int option \<Rightarrow> int" where
  "total p = (case p of None \<Rightarrow> 0 | Some n \<Rightarrow> n)"

subsection \<open>Search\<close>
















text \<open>
  What the specification asks of a match: the query occurs in the text, case aside. For
  text of the ASCII range the letters are \<open>A\<close> to \<open>Z\<close>, folded by \<open>lower\<close>.
\<close>

definition lower :: "char \<Rightarrow> char" where
  "lower c = (if 65 \<le> (of_char c :: nat) \<and> (of_char c :: nat) \<le> 90
              then char_of (of_char c + 32 :: nat) else c)"




section \<open>Sample data\<close>

text \<open>A small environment and store on which the properties below are exercised.\<close>

definition e0 :: env where
  "e0 = \<lparr>now = 5000, jwt_secret = None, salt = ''s'', random = (1, 1), new_id = 7,
          storage_url = ''https://x.supabase.co/storage/v1'', db_lower = map lower, fails = []\<rparr>"

definition alice :: user_row where
  "alice = \<lparr>u_id = 1, first_name = ''A'', last_name = ''B'', email = ''a@x.com'', phone = ''1'',
             password = Bcrypt ''s'' ''pw123456'', points = Some 0, level = Some ''Silver'',
             profile_pic = Some [], u_created_at = 0\<rparr>"

definition paper1 :: paper_row where
  "paper1 = \<lparr>p_id = 1, subject = ''Thermodynamics'', course_code = ''ME101'', exam_year = ''2020'',
              exam_name = ''CAT1'', category = ''notes'', file_path = ''u1'', uploader_id = 1,
              p_created_at = 0\<rparr>"

definition paper2 :: paper_row where
  "paper2 = \<lparr>p_id = 2, subject = ''Algorithms'', course_code = ''CS101'', exam_year = ''2020'',
              exam_name = ''FAT'', category = ''notes'', file_path = ''u2'', uploader_id = 1,
              p_created_at = 0\<rparr>"

definition s0 :: db where
  "s0 = \<lparr>users = [alice], papers = [paper1, paper2], otp_codes = [], bucket = []\<rparr>"

definition gold_alice :: db where
  "gold_alice = s0\<lparr>users := [alice\<lparr>level := Some ''Gold''\<rparr>]\<rparr>"

definition tok0 :: token where
  "tok0 = Jwt 1 ''secret'' 3605"

definition file0 :: upload_file where
  "file0 = \<lparr>originalname = ''a.pdf'', buffer = ''%PDF'', mimetype = ''application/pdf''\<rparr>"

definition path0 :: string where
  "path0 = toString (int (now e0)) @ extname (originalname file0)"

definition paper7 :: paper_row where
  "paper7 = \<lparr>p_id = 7, subject = ''Graphs'', course_code = ''CS102'', exam_year = ''2021'',
              exam_name = ''CAT2'', category = ''notes'', file_path = getPublicUrl e0 path0,
              uploader_id = 1, p_created_at = now e0\<rparr>"

definition e3 :: env where
  "e3 = e0\<lparr>fails := [3]\<rparr>"

definition carol :: "string \<Rightarrow> user_row" where
  "carol em = \<lparr>u_id = 7, first_name = ''C'', last_name = ''D'', email = em, phone = ''2'',
                password = Bcrypt ''s'' ''pw654321'', points = Some 0, level = Some ''Silver'',
                profile_pic = Some [], u_created_at = 5000\<rparr>"

text \<open>The store after a code was issued for \<open>a@x.com\<close>.\<close>

definition s_otp :: db where
  "s_otp = s0\<lparr>otp_codes := [\<lparr>o_email = ''a@x.com'', otp = ''550000'', o_created_at = 5000\<rparr>]\<rparr>"

section \<open>Properties\<close>

subsection \<open>Decimal digits\<close>

lemma digits_small: "n < 10 \<Longrightarrow> digits n = [digit_char n]"
  by (subst digits.simps) simp

lemma digits_large: "10 \<le> n \<Longrightarrow> digits n = digits (n div 10) @ [digit_char (n mod 10)]"
  by (subst digits.simps) simp

lemma digit_char_vals:
  "digit_char 0 = CHR ''0''" "digit_char (Suc 0) = CHR ''1''" "digit_char 2 = CHR ''2''"
  "digit_char 3 = CHR ''3''" "digit_char 4 = CHR ''4''" "digit_char 5 = CHR ''5''"
  "digit_char 6 = CHR ''6''" "digit_char 7 = CHR ''7''" "digit_char 8 = CHR ''8''"
  "digit_char 9 = CHR ''9''"
  by (code_simp)+

lemma lt10_cases:
  "(d::nat) < 10 \<Longrightarrow> d = 0 \<or> d = 1 \<or> d = 2 \<or> d = 3 \<or> d = 4 \<or> d = 5 \<or> d = 6 \<or> d = 7 \<or> d = 8 \<or> d = 9"
  by arith

lemma digit_char_is_digit: "d < 10 \<Longrightarrow> is_digit (digit_char d)"
  using lt10_cases[of d] by (auto simp: digit_char_vals is_digit_def)

lemma digit_char_zero: "d < 10 \<Longrightarrow> digit_char d = CHR ''0'' \<longleftrightarrow> d = 0"
  using lt10_cases[of d] by (auto simp: digit_char_vals)

lemma digits_all_digit: "list_all is_digit (digits n)"
proof (induction n rule: digits.induct)
  case (1 n)
  show ?case
  proof (cases "n < 10")
    case True
    then show ?thesis by (simp add: digits_small digit_char_is_digit)
  next
    case False
    with 1 show ?thesis by (simp add: digits_large digit_char_is_digit)
  qed
qed

lemma digits_length: "10 ^ k \<le> n \<Longrightarrow> n < 10 ^ Suc k \<Longrightarrow> length (digits n) = Suc k"
proof (induction k arbitrary: n)
  case 0
  then show ?case by (simp add: digits_small)
next
  case (Suc k)
  have "(10::nat) \<le> 10 ^ Suc k" by simp
  with Suc.prems have ge: "10 \<le> n" by linarith
  have a: "10 ^ k \<le> n div 10"
    using Suc.prems by (simp add: less_eq_div_iff_mult_less_eq mult.commute)
  have b: "n div 10 < 10 ^ Suc k"
    using Suc.prems by (simp add: div_less_iff_less_mult mult.commute)
  from ge have "digits n = digits (n div 10) @ [digit_char (n mod 10)]" by (rule digits_large)
  with Suc.IH[OF a b] show ?case by simp
qed

lemma digits_nonempty: "digits n \<noteq> []"
  by (cases "n < 10") (simp_all add: digits_small digits_large)

lemma digits_hd: "0 < n \<Longrightarrow> hd (digits n) \<noteq> CHR ''0''"
proof (induction n rule: digits.induct)
  case (1 n)
  show ?case
  proof (cases "n < 10")
    case True
    with 1 show ?thesis by (simp add: digits_small digit_char_zero)
  next
    case False
    then have "0 < n div 10" by simp
    with 1 False have "hd (digits (n div 10)) \<noteq> CHR ''0''" by simp
    with False show ?thesis by (simp add: digits_large digits_nonempty)
  qed
qed

lemma is_digit_char: "is_digit c \<Longrightarrow> \<exists>d<10. c = digit_char d"
proof -
  assume "is_digit c"
  then have "c = digit_char 0 \<or> c = digit_char (Suc 0) \<or> c = digit_char 2 \<or> c = digit_char 3
     \<or> c = digit_char 4 \<or> c = digit_char 5 \<or> c = digit_char 6 \<or> c = digit_char 7
     \<or> c = digit_char 8 \<or> c = digit_char 9"
    by (simp add: is_digit_def digit_char_vals)
  moreover have "(0::nat) < 10" "Suc 0 < 10" "(2::nat) < 10" "(3::nat) < 10" "(4::nat) < 10"
    "(5::nat) < 10" "(6::nat) < 10" "(7::nat) < 10" "(8::nat) < 10" "(9::nat) < 10" by simp_all
  ultimately show ?thesis by blast
qed

lemma digits_snoc: "0 < m \<Longrightarrow> d < 10 \<Longrightarrow> digits (10 * m + d) = digits m @ [digit_char d]"
proof -
  assume m: "0 < m" and d: "d < 10"
  then have "10 \<le> 10 * m + d" by simp
  then have "digits (10 * m + d) = digits ((10 * m + d) div 10) @ [digit_char ((10 * m + d) mod 10)]"
    by (rule digits_large)
  with d show ?thesis by simp
qed

text \<open>A digit string without a leading zero is the decimal form of a number of that length.\<close>

lemma digit_string_is_number:
  "t \<noteq> [] \<Longrightarrow> list_all is_digit t \<Longrightarrow> hd t \<noteq> CHR ''0'' \<Longrightarrow>
   \<exists>n. digits n = t \<and> 10 ^ (length t - 1) \<le> n \<and> n < 10 ^ length t"
proof (induction t rule: rev_nonempty_induct)
  case (single c)
  then obtain d where d: "d < 10" "c = digit_char d" using is_digit_char by auto
  with single have "d \<noteq> 0" using digit_char_zero[of d] by auto
  with d show ?case by (intro exI[of _ d]) (simp add: digits_small)
next
  case (snoc c t)
  from snoc.prems snoc.hyps(1) have "list_all is_digit t" "hd t \<noteq> CHR ''0''" by simp_all
  with snoc.IH obtain m where m: "digits m = t" "10 ^ (length t - 1) \<le> m" "m < 10 ^ length t"
    by blast
  from snoc.prems obtain d where d: "d < 10" "c = digit_char d" using is_digit_char by auto
  from m(2) have mpos: "0 < m" by (metis less_le_trans zero_less_numeral zero_less_power)
  have ls: "0 < length t" using snoc.hyps(1) by simp
  have "10 ^ length t \<le> 10 * m"
  proof -
    have "(10::nat) ^ length t = 10 * 10 ^ (length t - 1)" using ls by (cases "length t") simp_all
    with m(2) show ?thesis by simp
  qed
  moreover have "10 * m + d < 10 ^ Suc (length t)" using m(3) d(1) by simp
  ultimately show ?case using digits_snoc[OF mpos d(1)] m(1) d(2)
    by (intro exI[of _ "10 * m + d"]) simp
qed

lemma digits_six:
  "100000 \<le> n \<Longrightarrow> n \<le> 999999 \<Longrightarrow> six_digit (digits n) \<and> hd (digits n) \<noteq> CHR ''0''"
  using digits_length[of 5 n] digits_all_digit[of n] digits_hd[of n]
  by (simp add: six_digit_def)

lemma digit_char_inj: "a < 10 \<Longrightarrow> b < 10 \<Longrightarrow> digit_char a = digit_char b \<Longrightarrow> a = b"
proof -
  assume a: "a < 10" and b: "b < 10" and e: "digit_char a = digit_char b"
  from e have "(of_char (char_of (48 + a)) :: nat) = of_char (char_of (48 + b))"
    by (simp add: digit_char_def)
  then have "(48 + a) mod 256 = (48 + b) mod 256" by (simp only: of_char_of)
  with a b show ?thesis by simp
qed

lemma digits_inj: "digits a = digits b \<Longrightarrow> a = b"
proof (induction a arbitrary: b rule: digits.induct)
  case (1 a)
  show ?case
  proof (cases "a < 10")
    case True
    show ?thesis
    proof (cases "b < 10")
      case b: True
      with True 1(2) show ?thesis by (simp add: digits_small digit_char_inj)
    next
      case False
      with True 1(2) show ?thesis
        using digits_nonempty[of "b div 10"] by (auto simp: digits_small digits_large)
    qed
  next
    case False
    show ?thesis
    proof (cases "b < 10")
      case True
      with False 1(2) show ?thesis
        using digits_nonempty[of "a div 10"] by (auto simp: digits_small digits_large)
    next
      case b: False
      with False 1(2) have "digits (a div 10) = digits (b div 10)"
        and d: "digit_char (a mod 10) = digit_char (b mod 10)"
        by (simp_all add: digits_large)
      with 1(1) False have "a div 10 = b div 10" by simp
      moreover from d have "a mod 10 = b mod 10" by (intro digit_char_inj) simp_all
      ultimately show ?thesis by (metis div_mult_mod_eq)
    qed
  qed
qed

subsection \<open>Rounding to 53 significant bits\<close>

lemma bit_length_0: "bit_length 0 = 0"
  by (subst bit_length.simps) simp

lemma bit_length_pos: "0 < n \<Longrightarrow> bit_length n = Suc (bit_length (n div 2))"
  by (subst bit_length.simps) simp

lemma bit_length_less: "n < 2 ^ bit_length n"
proof (induction n rule: bit_length.induct)
  case (1 n)
  show ?case
  proof (cases "n = 0")
    case True
    then show ?thesis by (simp add: bit_length_0)
  next
    case False
    with 1 have "n div 2 < 2 ^ bit_length (n div 2)" by simp
    then have "n < 2 * 2 ^ bit_length (n div 2)" by linarith
    with False show ?thesis by (simp add: bit_length_pos)
  qed
qed

lemma bit_length_ge: "0 < n \<Longrightarrow> 2 ^ (bit_length n - 1) \<le> n"
proof (induction n rule: bit_length.induct)
  case (1 n)
  show ?case
  proof (cases "n div 2 = 0")
    case True
    with 1(2) have "n = 1" by (simp add: div_eq_0_iff) 
    then show ?thesis by (simp add: bit_length_pos bit_length_0)
  next
    case False
    with 1 have ih: "2 ^ (bit_length (n div 2) - 1) \<le> n div 2" by simp
    from False have "0 < bit_length (n div 2)" by (simp add: bit_length_pos)
    then have "(2::nat) ^ bit_length (n div 2) = 2 * 2 ^ (bit_length (n div 2) - 1)"
      by (cases "bit_length (n div 2)") simp_all
    with ih have "2 ^ bit_length (n div 2) \<le> n" by linarith
    with 1(2) show ?thesis by (simp add: bit_length_pos)
  qed
qed

lemma bit_length_le: "n < 2 ^ k \<Longrightarrow> bit_length n \<le> k"
proof (rule ccontr)
  assume n: "n < 2 ^ k" and "\<not> bit_length n \<le> k"
  then have k: "k \<le> bit_length n - 1" and pos: "0 < n"
    by (auto simp: bit_length_0 intro: ccontr)
  from k have "(2::nat) ^ k \<le> 2 ^ (bit_length n - 1)" by (rule power_increasing) simp
  with bit_length_ge[OF pos] n show False by linarith
qed

lemma bit_length_eq: "2 ^ k \<le> n \<Longrightarrow> n < 2 ^ Suc k \<Longrightarrow> bit_length n = Suc k"
proof -
  assume lo: "2 ^ k \<le> n" and hi: "n < 2 ^ Suc k"
  from hi have a: "bit_length n \<le> Suc k" by (rule bit_length_le)
  have "\<not> bit_length n \<le> k"
  proof
    assume "bit_length n \<le> k"
    then have "(2::nat) ^ bit_length n \<le> 2 ^ k" by (rule power_increasing) simp
    with bit_length_less[of n] lo show False by linarith
  qed
  with a show ?thesis by linarith
qed

lemma bit_length_mono: "a \<le> b \<Longrightarrow> bit_length a \<le> bit_length b"
proof -
  assume "a \<le> b"
  with bit_length_less[of b] have "a < 2 ^ bit_length b" by linarith
  then show ?thesis by (rule bit_length_le)
qed


lemma round53_between:
  "(n div 2 ^ (bit_length n - 53)) * 2 ^ (bit_length n - 53) \<le> round53 n \<and>
   round53 n \<le> (n div 2 ^ (bit_length n - 53) + 1) * 2 ^ (bit_length n - 53)"
  by (simp add: round53_def Let_def)

lemma round53_exact: "a < 2 ^ 53 \<Longrightarrow> round53 (a * 2 ^ j) = a * 2 ^ j"
proof -
  assume a: "a < 2 ^ 53"
  let ?n = "a * 2 ^ j" and ?sh = "bit_length (a * 2 ^ j) - 53"
  from a have "?n < 2 ^ 53 * 2 ^ j" by simp
  then have "?n < 2 ^ (53 + j)" by (simp add: power_add)
  then have "bit_length ?n \<le> 53 + j" by (rule bit_length_le)
  then have sh: "?sh \<le> j" by simp
  then have "(2::nat) ^ ?sh dvd 2 ^ j" by (rule le_imp_power_dvd)
  then have d: "2 ^ ?sh dvd ?n" by (rule dvd_mult)
  then have "?n mod 2 ^ ?sh = 0" by (rule dvd_imp_mod_0)
  moreover from d have "?n div 2 ^ ?sh * 2 ^ ?sh = ?n" by (rule dvd_div_mult_self)
  ultimately show ?thesis unfolding round53_def Let_def by simp
qed

lemma round53_small: "a < 2 ^ 53 \<Longrightarrow> round53 a = a"
  using round53_exact[of a 0] by simp

lemma below_power: "a < 2 ^ k \<Longrightarrow> s \<le> k \<Longrightarrow> (a div 2 ^ s + 1) * 2 ^ s \<le> (2::nat) ^ k"
proof -
  assume a: "a < 2 ^ k" and s: "s \<le> k"
  from s have k: "(2::nat) ^ k = 2 ^ (k - s) * 2 ^ s" by (simp flip: power_add)
  with a have "a div 2 ^ s < 2 ^ (k - s)" by (simp add: less_mult_imp_div_less)
  then have "a div 2 ^ s + 1 \<le> 2 ^ (k - s)" by simp
  then have "(a div 2 ^ s + 1) * 2 ^ s \<le> 2 ^ (k - s) * 2 ^ s" by (rule mult_le_mono1)
  with k show ?thesis by simp
qed

lemma above_power: "2 ^ k \<le> b \<Longrightarrow> s \<le> k \<Longrightarrow> (2::nat) ^ k \<le> (b div 2 ^ s) * 2 ^ s"
proof -
  assume b: "2 ^ k \<le> b" and s: "s \<le> k"
  from s have k: "(2::nat) ^ k = 2 ^ (k - s) * 2 ^ s" by (simp flip: power_add)
  from b have "2 ^ k div 2 ^ s \<le> b div (2::nat) ^ s" by (rule div_le_mono)
  with k have "2 ^ (k - s) \<le> b div (2::nat) ^ s" by simp
  then have "2 ^ (k - s) * 2 ^ s \<le> (b div (2::nat) ^ s) * 2 ^ s" by (rule mult_le_mono1)
  with k show ?thesis by simp
qed

lemma round53_mono: "a \<le> b \<Longrightarrow> round53 a \<le> round53 b"
proof -
  assume ab: "a \<le> b"
  let ?sa = "bit_length a - 53" and ?sb = "bit_length b - 53"
  from ab have kk: "bit_length a \<le> bit_length b" by (rule bit_length_mono)
  then have "?sa \<le> ?sb" by simp
  then consider "?sa = ?sb" | "?sa < ?sb" by linarith
  then show ?thesis
  proof cases
    case 1
    let ?u = "(2::nat) ^ ?sb"
    let ?qa = "a div ?u" and ?qb = "b div ?u" and ?ra = "a mod ?u" and ?rb = "b mod ?u"
    from ab have q: "?qa \<le> ?qb" by (rule div_le_mono)
    have ra: "round53 a = (if 2 * ?ra < ?u \<or> (2 * ?ra = ?u \<and> even ?qa) then ?qa * ?u else (?qa + 1) * ?u)"
      using 1 by (simp add: round53_def Let_def)
    have rb: "round53 b = (if 2 * ?rb < ?u \<or> (2 * ?rb = ?u \<and> even ?qb) then ?qb * ?u else (?qb + 1) * ?u)"
      by (simp add: round53_def Let_def)
    show ?thesis
    proof (cases "?qa = ?qb")
      case False
      with q have "?qa + 1 \<le> ?qb" by simp
      then have "(?qa + 1) * ?u \<le> ?qb * ?u" by (rule mult_le_mono1)
      moreover from ra have "round53 a \<le> (?qa + 1) * ?u" by simp
      moreover from rb have "?qb * ?u \<le> round53 b" by simp
      ultimately show ?thesis by linarith
    next
      case True
      have "?qa * ?u + ?ra = a" "?qb * ?u + ?rb = b" by (rule div_mult_mod_eq)+
      with ab True have "?qb * ?u + ?ra \<le> ?qb * ?u + ?rb" by simp
      then have r: "?ra \<le> ?rb" by simp
      show ?thesis
      proof (cases "2 * ?ra < ?u \<or> (2 * ?ra = ?u \<and> even ?qa)")
        case True
        with ra have "round53 a = ?qa * ?u" by simp
        moreover from rb have "?qb * ?u \<le> round53 b" by simp
        ultimately show ?thesis using \<open>?qa = ?qb\<close> by simp
      next
        case False
        then have f: "?u \<le> 2 * ?ra" "2 * ?ra = ?u \<longrightarrow> odd ?qa" by auto
        from f(1) r have g: "\<not> 2 * ?rb < ?u" by linarith
        have "\<not> (2 * ?rb = ?u \<and> even ?qb)"
        proof
          assume h: "2 * ?rb = ?u \<and> even ?qb"
          with f(1) r have "2 * ?ra = ?u" by linarith
          with f(2) have "odd ?qa" by blast
          with h \<open>?qa = ?qb\<close> show False by simp
        qed
        with g rb have "round53 b = (?qb + 1) * ?u" by simp
        moreover from False ra have "round53 a = (?qa + 1) * ?u" by simp
        ultimately show ?thesis using \<open>?qa = ?qb\<close> by simp
      qed
    qed
  next
    case 2
    then have kb: "53 < bit_length b" and sb: "bit_length b = ?sb + 53" by simp_all
    from 2 have ka: "bit_length a \<le> bit_length b - 1" by linarith
    have "round53 a \<le> (a div 2 ^ ?sa + 1) * 2 ^ ?sa" using round53_between[of a] by simp
    also have "\<dots> \<le> 2 ^ bit_length a" by (rule below_power[OF bit_length_less]) simp
    also have "\<dots> \<le> 2 ^ (bit_length b - 1)" using ka by (rule power_increasing) simp
    also have "\<dots> \<le> (b div 2 ^ ?sb) * 2 ^ ?sb"
    proof (rule above_power)
      from kb have "0 < b" by (auto simp: bit_length_0 intro: ccontr)
      then show "2 ^ (bit_length b - 1) \<le> b" by (rule bit_length_ge)
      show "?sb \<le> bit_length b - 1" using kb by simp
    qed
    also have "\<dots> \<le> round53 b" using round53_between[of b] by simp
    finally show ?thesis .
  qed
qed


lemma bit_length_shift: "0 < n \<Longrightarrow> bit_length (n * 2 ^ j) = bit_length n + j"
proof -
  assume pos: "0 < n"
  then obtain k where k: "bit_length n = Suc k" by (cases "bit_length n") (simp_all add: bit_length_pos)
  from bit_length_ge[OF pos] k have "2 ^ k \<le> n" by simp
  then have "2 ^ k * 2 ^ j \<le> n * 2 ^ j" by (rule mult_le_mono1)
  then have lo: "2 ^ (k + j) \<le> n * 2 ^ j" by (simp add: power_add)
  from bit_length_less[of n] k have "n < 2 ^ Suc k" by simp
  then have "n * 2 ^ j < 2 ^ Suc k * 2 ^ j" by simp
  then have hi: "n * 2 ^ j < 2 ^ Suc (k + j)" by (simp add: power_add)
  from bit_length_eq[OF lo hi] k show ?thesis by simp
qed

lemma round53_scale: "round53 (n * 2 ^ j) = round53 n * 2 ^ j"
proof (cases "bit_length n \<le> 53")
  case True
  then have "(2::nat) ^ bit_length n \<le> 2 ^ 53" by (rule power_increasing) simp
  with bit_length_less[of n] have "n < 2 ^ 53" by linarith
  then show ?thesis by (simp only: round53_exact round53_small)
next
  case False
  then have pos: "0 < n" by (auto simp: bit_length_0 intro: ccontr)
  let ?sh = "bit_length n - 53"
  from False bit_length_shift[OF pos, of j] have sh: "bit_length (n * 2 ^ j) - 53 = ?sh + j" by simp
  have d: "(n * 2 ^ j) div (2 ^ (?sh + j)) = n div 2 ^ ?sh"
    by (simp add: power_add)
  have m: "(n * 2 ^ j) mod (2 ^ (?sh + j)) = (n mod 2 ^ ?sh) * 2 ^ j"
    by (simp add: power_add)
  have c1: "2 * ((n mod 2 ^ ?sh) * 2 ^ j) < 2 ^ (?sh + j) \<longleftrightarrow> 2 * (n mod 2 ^ ?sh) < 2 ^ ?sh"
    by (simp add: power_add)
  have c2: "2 * ((n mod 2 ^ ?sh) * 2 ^ j) = 2 ^ (?sh + j) \<longleftrightarrow> 2 * (n mod 2 ^ ?sh) = 2 ^ ?sh"
    by (simp add: power_add)
  have "round53 (n * 2 ^ j) =
      (if 2 * (n mod 2 ^ ?sh) < 2 ^ ?sh \<or> (2 * (n mod 2 ^ ?sh) = 2 ^ ?sh \<and> even (n div 2 ^ ?sh))
       then (n div 2 ^ ?sh) * 2 ^ (?sh + j) else (n div 2 ^ ?sh + 1) * 2 ^ (?sh + j))"
    unfolding round53_def Let_def sh d m c1 c2 ..
  also have "\<dots> = round53 n * 2 ^ j"
    unfolding round53_def Let_def by (simp add: power_add algebra_simps)
  finally show ?thesis .
qed

lemma round53_ge: "a < 2 ^ 53 \<Longrightarrow> a * 2 ^ j \<le> n \<Longrightarrow> a * 2 ^ j \<le> round53 n"
  using round53_mono[of "a * 2 ^ j" n] round53_exact[of a j] by simp

lemma round53_le: "a < 2 ^ 53 \<Longrightarrow> n \<le> a * 2 ^ j \<Longrightarrow> round53 n \<le> a * 2 ^ j"
  using round53_mono[of n "a * 2 ^ j"] round53_exact[of a j] by simp

subsection \<open>One-time codes\<close>

lemma otp_number_eq:
  "otp_number (m, p) = round53 (100000 * 2 ^ p + round53 (m * 900000)) div 2 ^ p"
  by (simp add: otp_number_def dbl_floor_def dbl_plus_def dbl_times_def)

lemma otp_number_rescale: "otp_number (m * 2 ^ j, p + j) = otp_number (m, p)"
proof -
  have "m * 2 ^ j * 900000 = (m * 900000) * 2 ^ j" by simp
  then have a: "round53 (m * 2 ^ j * 900000) = round53 (m * 900000) * 2 ^ j"
    by (simp only: round53_scale)
  have "100000 * 2 ^ (p + j) + round53 (m * 900000) * 2 ^ j
      = (100000 * 2 ^ p + round53 (m * 900000)) * 2 ^ j"
    by (simp add: power_add algebra_simps)
  then have b: "round53 (100000 * 2 ^ (p + j) + round53 (m * 900000) * 2 ^ j)
      = round53 (100000 * 2 ^ p + round53 (m * 900000)) * 2 ^ j"
    by (simp only: round53_scale)
  show ?thesis
    unfolding otp_number_eq a b by (simp add: power_add)
qed

lemma otp_number_ge:
  assumes "j < 2 ^ 20" and "j * 2 ^ p \<le> 900000 * m"
  shows "100000 + j \<le> otp_number (m, p)"
proof -
  from assms(1) have "j < 2 ^ 53" "100000 + j < 2 ^ 53" by simp_all
  from assms(2) have "j * 2 ^ p \<le> m * 900000" by (simp add: mult.commute)
  with \<open>j < 2 ^ 53\<close> have "j * 2 ^ p \<le> round53 (m * 900000)" by (rule round53_ge)
  then have "(100000 + j) * 2 ^ p \<le> 100000 * 2 ^ p + round53 (m * 900000)"
    by (simp add: algebra_simps)
  with \<open>100000 + j < 2 ^ 53\<close>
  have "(100000 + j) * 2 ^ p \<le> round53 (100000 * 2 ^ p + round53 (m * 900000))"
    by (rule round53_ge)
  then have "((100000 + j) * 2 ^ p) div 2 ^ p \<le> round53 (100000 * 2 ^ p + round53 (m * 900000)) div 2 ^ p"
    by (rule div_le_mono)
  then show ?thesis by (simp add: otp_number_eq)
qed

lemma otp_number_le:
  assumes "j + 100001 \<le> 2 ^ 20" and "33 \<le> p" and "900000 * m + 2 ^ (p - 33) \<le> (j + 1) * 2 ^ p"
  shows "otp_number (m, p) \<le> 100000 + j"
proof -
  let ?v = "(2::nat) ^ (p - 33)"
  from assms(2) have p: "(2::nat) ^ p = 2 ^ 33 * ?v"
    using power_add[of "2::nat" 33 "p - 33"] by simp
  have a: "(j + 1) * 2 ^ 33 - 1 < (2::nat) ^ 53"
  proof -
    from assms(1) have "(j + 1) * 2 ^ 33 \<le> 2 ^ 20 * (2::nat) ^ 33" by (intro mult_le_mono1) simp
    then show ?thesis by simp
  qed
  have b: "(j + 100001) * 2 ^ 33 - 1 < (2::nat) ^ 53"
  proof -
    from assms(1) have "(j + 100001) * 2 ^ 33 \<le> 2 ^ 20 * (2::nat) ^ 33" by (intro mult_le_mono1)
    then show ?thesis by simp
  qed
  have t: "((j + 1) * 2 ^ 33 - 1) * ?v = (j + 1) * 2 ^ p - ?v"
    by (simp add: p diff_mult_distrib algebra_simps)
  have t2: "((j + 100001) * 2 ^ 33 - 1) * ?v = (j + 100001) * 2 ^ p - ?v"
    by (simp add: p diff_mult_distrib algebra_simps)
  from assms(3) have "m * 900000 \<le> (j + 1) * 2 ^ p - ?v" by (simp add: mult.commute)
  then have "m * 900000 \<le> ((j + 1) * 2 ^ 33 - 1) * ?v" by (simp only: t)
  with a have "round53 (m * 900000) \<le> ((j + 1) * 2 ^ 33 - 1) * ?v" by (rule round53_le)
  then have "round53 (m * 900000) \<le> (j + 1) * 2 ^ p - ?v" by (simp only: t)
  moreover have "?v \<le> (j + 1) * 2 ^ p" using p by simp
  ultimately have "100000 * 2 ^ p + round53 (m * 900000) \<le> (j + 100001) * 2 ^ p - ?v"
    by (simp add: algebra_simps)
  then have "100000 * 2 ^ p + round53 (m * 900000) \<le> ((j + 100001) * 2 ^ 33 - 1) * ?v"
    by (simp only: t2)
  with b have "round53 (100000 * 2 ^ p + round53 (m * 900000)) \<le> ((j + 100001) * 2 ^ 33 - 1) * ?v"
    by (rule round53_le)
  then have "round53 (100000 * 2 ^ p + round53 (m * 900000)) \<le> (j + 100001) * 2 ^ p - ?v"
    by (simp only: t2)
  moreover have "0 < ?v" by simp
  moreover have "?v \<le> (j + 100001) * 2 ^ p" using p by simp
  ultimately have "round53 (100000 * 2 ^ p + round53 (m * 900000)) < (j + 100001) * 2 ^ p"
    by linarith
  then have "round53 (100000 * 2 ^ p + round53 (m * 900000)) div 2 ^ p < j + 100001"
    by (simp add: less_mult_imp_div_less)
  then show ?thesis by (simp add: otp_number_eq)
qed

lemma gen_otp_digits: "gen_otp r = digits (otp_number r)"
  by (simp add: gen_otp_def toString_def)

lemma round53_max_product: "round53 ((2 ^ 53 - 1) * 900000) = 900000 * 2 ^ 53 - 2 ^ 20"
proof -
  have "bit_length ((2 ^ 53 - 1) * 900000) = Suc 72" by (rule bit_length_eq) simp_all
  then show ?thesis by (simp add: round53_def Let_def)
qed

lemma otp_number_max: "otp_number (2 ^ 53 - 1, 53) = 999999"
proof -
  have "100000 * 2 ^ 53 + (900000 * 2 ^ 53 - 2 ^ 20) = (1000000 * 2 ^ 33 - 1) * (2::nat) ^ 20"
    by simp
  moreover have "round53 ((1000000 * 2 ^ 33 - 1) * 2 ^ 20) = (1000000 * 2 ^ 33 - 1) * 2 ^ 20"
    by (rule round53_exact) simp
  ultimately have "round53 (100000 * 2 ^ 53 + (900000 * 2 ^ 53 - 2 ^ 20))
      = (1000000 * 2 ^ 33 - 1) * 2 ^ 20" by (simp only:)
  then show ?thesis
    unfolding otp_number_eq round53_max_product by simp
qed

lemma otp_number_range:
  assumes "is_draw (m, p)"
  shows "100000 \<le> otp_number (m, p)" and "otp_number (m, p) \<le> 999999"
proof -
  from assms have m: "m < 2 ^ 53" "m < 2 ^ p" by (simp_all add: is_draw_def)
  from otp_number_ge[of 0 p m] show "100000 \<le> otp_number (m, p)" by simp
  show "otp_number (m, p) \<le> 999999"
  proof (cases "54 \<le> p")
    case True
    then have p1: "(2::nat) ^ p = 2 * 2 ^ (p - 1)" by (cases p) simp_all
    from True have p2: "(2::nat) ^ 53 \<le> 2 ^ (p - 1)" by (intro power_increasing) simp_all
    have p3: "(2::nat) ^ (p - 33) \<le> 2 ^ (p - 1)" by (intro power_increasing) simp_all
    note p = p1 p2 p3
    from m(1) p(2) have "m \<le> 2 ^ (p - 1)" by simp
    then have "900000 * m \<le> 900000 * 2 ^ (p - 1)" by simp
    with p3 have "900000 * m + 2 ^ (p - 33) \<le> 900000 * 2 ^ (p - 1) + 2 ^ (p - 1)" by linarith
    moreover have "(899999 + 1) * (2::nat) ^ p = 1800000 * 2 ^ (p - 1)" by (subst p1) simp
    ultimately have "900000 * m + 2 ^ (p - 33) \<le> (899999 + 1) * 2 ^ p" by linarith
    from otp_number_le[OF _ _ this] True show ?thesis by simp
  next
    case False
    then have le: "p \<le> 53" by simp
    define k where "k = 53 - p"
    define n where "n = m * 2 ^ k"
    from le have pk: "p + k = 53" by (simp add: k_def)
    have "m * 2 ^ k < 2 ^ p * 2 ^ k" using m(2) by simp
    then have n: "n < 2 ^ 53" by (simp add: n_def pk flip: power_add)
    have eq: "otp_number (m, p) = otp_number (n, 53)"
      using otp_number_rescale[of m k p] by (simp add: n_def pk)
    show ?thesis
    proof (cases "n = 2 ^ 53 - 1")
      case True
      show ?thesis unfolding eq True otp_number_max by simp
    next
      case False
      with n have "n + 2 \<le> 2 ^ 53" by simp
      then have "900000 * (n + 2) \<le> 900000 * 2 ^ 53" by (rule mult_le_mono2)
      then have "900000 * n + 2 ^ (53 - 33) \<le> (899999 + 1) * 2 ^ 53" by simp
      from otp_number_le[OF _ _ this] show ?thesis by (simp add: eq)
    qed
  qed
qed

lemma multiples_interval:
  assumes "0 < (c::nat)"
  shows "{m. L \<le> c * m \<and> c * m \<le> U} = {(L + c - 1) div c .. U div c}"
proof -
  have a: "L \<le> c * m \<longleftrightarrow> (L + c - 1) div c \<le> m" for m
  proof
    assume "L \<le> c * m"
    then have "L + c - 1 < c * m + c" using assms by simp
    then have "L + c - 1 < (m + 1) * c" by (simp add: algebra_simps)
    then have "(L + c - 1) div c < m + 1" using assms by (simp add: div_less_iff_less_mult)
    then show "(L + c - 1) div c \<le> m" by simp
  next
    assume "(L + c - 1) div c \<le> m"
    then have "(L + c - 1) div c < m + 1" by simp
    then have "L + c - 1 < (m + 1) * c" using assms by (simp add: div_less_iff_less_mult)
    then show "L \<le> c * m" by (simp add: algebra_simps)
  qed
  have b: "c * m \<le> U \<longleftrightarrow> m \<le> U div c" for m
    using assms by (simp add: less_eq_div_iff_mult_less_eq mult.commute)
  show ?thesis by (auto simp: a b)
qed

lemma multiples_card_le:
  assumes "0 < (c::nat)" "L \<le> U + c"
  shows "c * card {m. L \<le> c * m \<and> c * m \<le> U} + L \<le> U + c"
proof -
  let ?a = "(L + c - 1) div c" and ?b = "U div c"
  have ca: "L \<le> c * ?a"
  proof -
    have "L + c - 1 < c * ?a + c"
      using assms(1) dividend_less_times_div[of c "L + c - 1"] by (simp add: algebra_simps)
    then show ?thesis by simp
  qed
  have cb: "c * ?b \<le> U" by simp
  have card: "card {m. L \<le> c * m \<and> c * m \<le> U} = Suc ?b - ?a"
    by (simp add: multiples_interval[OF assms(1)])
  show ?thesis
  proof (cases "?a \<le> Suc ?b")
    case True
    then have "c * (Suc ?b - ?a) + c * ?a = c * Suc ?b" by (simp flip: distrib_left)
    moreover have "c * Suc ?b = c * ?b + c" by simp
    ultimately show ?thesis using ca cb unfolding card by linarith
  next
    case False
    then have "Suc ?b - ?a = 0" by simp
    with assms(2) show ?thesis unfolding card by simp
  qed
qed

lemma multiples_card_ge:
  assumes "0 < (c::nat)"
  shows "U < c * card {m. L \<le> c * m \<and> c * m \<le> U} + L + c"
proof -
  let ?a = "(L + c - 1) div c" and ?b = "U div c"
  have ca: "c * ?a < L + c"
  proof -
    have "c * ?a \<le> L + c - 1" by simp
    with assms show ?thesis by linarith
  qed
  have cb: "U < c * Suc ?b"
    using assms dividend_less_times_div[of c U] by (simp add: algebra_simps)
  have card: "card {m. L \<le> c * m \<and> c * m \<le> U} = Suc ?b - ?a"
    by (simp add: multiples_interval[OF assms(1)])
  have "c * Suc ?b \<le> c * (Suc ?b - ?a) + c * ?a"
    by (simp add: diff_mult_distrib2)
  with ca cb show ?thesis unfolding card by linarith
qed

lemma otp_count:
  assumes n: "100000 \<le> n" "n \<le> 999999" and p: "33 \<le> p"
  shows "2 ^ p < 900000 * card {m. m < 2 ^ p \<and> otp_number (m, p) = n} + 2 ^ (p - 33) + 900000"
    and "900000 * card {m. m < 2 ^ p \<and> otp_number (m, p) = n} < 2 ^ p + 2 ^ (p - 33) + 900000"
proof -
  define j where "j = n - 100000"
  define P :: nat where "P = 2 ^ p"
  define d :: nat where "d = 2 ^ (p - 33)"
  define S where "S = {m. m < P \<and> otp_number (m, p) = n}"
  define I where "I = {m. j * P \<le> 900000 * m \<and> 900000 * m \<le> (j + 1) * P - d}"
  define J where "J = {m. j * P + 1 - d \<le> 900000 * m \<and> 900000 * m \<le> (j + 1) * P - 1}"
  from n have j: "j \<le> 899999" "n = 100000 + j" by (simp_all add: j_def)
  have d1: "1 \<le> d" by (simp add: d_def)
  have dP: "d \<le> P" unfolding d_def P_def by (intro power_increasing) simp_all
  have P1: "1 \<le> P" by (simp add: P_def)
  have jP: "(j + 1) * P = j * P + P" by (simp add: algebra_simps)
  have top: "(j + 1) * P \<le> 900000 * P" using j(1) by (intro mult_le_mono1) simp
  have finS: "finite S"
  proof (rule finite_subset)
    show "S \<subseteq> {..<P}" by (auto simp: S_def)
  qed simp
  have IS: "I \<subseteq> S"
  proof
    fix m assume "m \<in> I"
    then have lo: "j * P \<le> 900000 * m" and hi: "900000 * m \<le> (j + 1) * P - d"
      by (simp_all add: I_def)
    from hi dP jP have hi': "900000 * m + d \<le> (j + 1) * P" by linarith
    from j(1) have "j < 2 ^ 20" by simp
    from otp_number_ge[OF this, of p m] lo have a: "100000 + j \<le> otp_number (m, p)"
      by (simp add: P_def)
    from j(1) have "j + 100001 \<le> 2 ^ 20" by simp
    from otp_number_le[OF this p, of m] hi' have b: "otp_number (m, p) \<le> 100000 + j"
      by (simp add: P_def d_def)
    from hi' d1 top have "900000 * m < 900000 * P" by linarith
    then have "m < P" by simp
    with a b j(2) show "m \<in> S" by (simp add: S_def)
  qed
  have SJ: "S \<subseteq> J"
  proof
    fix m assume "m \<in> S"
    then have eq: "otp_number (m, p) = 100000 + j" by (simp add: S_def j(2))
    have hi: "900000 * m \<le> (j + 1) * P - 1"
    proof (rule ccontr)
      assume "\<not> 900000 * m \<le> (j + 1) * P - 1"
      then have "(j + 1) * P \<le> 900000 * m" by linarith
      moreover from j(1) have "j + 1 < 2 ^ 20" by simp
      ultimately have "100000 + (j + 1) \<le> otp_number (m, p)"
        unfolding P_def by (intro otp_number_ge)
      with eq show False by simp
    qed
    have lo: "j * P + 1 - d \<le> 900000 * m"
    proof (rule ccontr)
      assume "\<not> j * P + 1 - d \<le> 900000 * m"
      then have c: "900000 * m + d \<le> j * P" by linarith
      have "0 < j"
      proof (rule ccontr)
        assume "\<not> 0 < j"
        with c d1 show False by simp
      qed
      then have j1: "j - 1 + 1 = j" by simp
      from j(1) have "j - 1 + 100001 \<le> 2 ^ 20" by simp
      moreover note p
      moreover from c have "900000 * m + 2 ^ (p - 33) \<le> (j - 1 + 1) * 2 ^ p"
        by (simp only: j1 P_def d_def)
      ultimately have "otp_number (m, p) \<le> 100000 + (j - 1)" by (rule otp_number_le)
      with eq \<open>0 < j\<close> show False by simp
    qed
    from lo hi show "m \<in> J" by (simp add: J_def)
  qed
  have finJ: "finite J" unfolding J_def by (subst multiples_interval) simp_all
  from IS finS have cI: "card I \<le> card S" by (rule card_mono[rotated])
  from SJ finJ have cJ: "card S \<le> card J" by (rule card_mono[rotated])
  have "(j + 1) * P - d < 900000 * card I + j * P + 900000"
    unfolding I_def by (rule multiples_card_ge) simp
  with jP dP have "P < 900000 * card I + d + 900000" by linarith
  with cI have "P < 900000 * card S + d + 900000" by linarith
  then show "2 ^ p < 900000 * card {m. m < 2 ^ p \<and> otp_number (m, p) = n} + 2 ^ (p - 33) + 900000"
    by (simp only: S_def P_def d_def)
  have "900000 * card J + (j * P + 1 - d) \<le> (j + 1) * P - 1 + 900000"
    unfolding J_def
  proof (rule multiples_card_le)
    show "j * P + 1 - d \<le> (j + 1) * P - 1 + 900000" using jP P1 by linarith
  qed simp
  with jP P1 have "900000 * card J < P + d + 900000" by linarith
  with cJ have "900000 * card S < P + d + 900000" by linarith
  then show "900000 * card {m. m < 2 ^ p \<and> otp_number (m, p) = n} < 2 ^ p + 2 ^ (p - 33) + 900000"
    by (simp only: S_def P_def d_def)
qed

lemma otp_draw_exists:
  assumes "100000 \<le> n" "n \<le> 999999" "33 \<le> p"
  shows "\<exists>m<2 ^ p. otp_number (m, p) = n"
proof (rule ccontr)
  assume "\<not> (\<exists>m<2 ^ p. otp_number (m, p) = n)"
  then have "{m. m < 2 ^ p \<and> otp_number (m, p) = n} = {}" by auto
  with otp_count(1)[OF assms] have a: "(2::nat) ^ p < 2 ^ (p - 33) + 900000" by simp
  from assms(3) have "(2::nat) ^ p = 2 ^ 33 * 2 ^ (p - 33)"
    using power_add[of "2::nat" 33 "p - 33"] by simp
  moreover have "1 \<le> (2::nat) ^ (p - 33)" by simp
  ultimately show False using a by simp
qed

lemma otp_partition:
  assumes "p \<le> 53"
  shows "(\<Sum>n = 100000..999999. card {m. m < 2 ^ p \<and> otp_number (m, p) = n}) = 2 ^ p"
proof -
  let ?A = "\<lambda>n. {m. m < 2 ^ p \<and> otp_number (m, p) = n}"
  from assms have le: "(2::nat) ^ p \<le> 2 ^ 53" by (intro power_increasing) simp_all
  have fin: "\<forall>n\<in>{100000..999999::nat}. finite (?A n)" by simp
  have disj: "\<forall>i\<in>{100000..999999::nat}. \<forall>j\<in>{100000..999999}. i \<noteq> j \<longrightarrow> ?A i \<inter> ?A j = {}"
    by auto
  have un: "(\<Union>n\<in>{100000..999999}. ?A n) = {m. m < 2 ^ p}"
  proof (rule set_eqI)
    fix m
    show "m \<in> (\<Union>n\<in>{100000..999999}. ?A n) \<longleftrightarrow> m \<in> {m. m < 2 ^ p}"
    proof
      assume "m \<in> (\<Union>n\<in>{100000..999999}. ?A n)"
      then show "m \<in> {m. m < 2 ^ p}" by auto
    next
      assume "m \<in> {m. m < 2 ^ p}"
      then have m: "m < 2 ^ p" by simp
      with le assms have "is_draw (m, p)" by (simp add: is_draw_def)
      from otp_number_range[OF this] m show "m \<in> (\<Union>n\<in>{100000..999999}. ?A n)" by simp
    qed
  qed
  have "card (\<Union>n\<in>{100000..999999}. ?A n) = (\<Sum>n = 100000..999999. card (?A n))"
    by (rule card_UN_disjoint[OF _ fin disj]) simp
  moreover have "card {m::nat. m < 2 ^ p} = 2 ^ p" by simp
  ultimately show ?thesis by (simp only: un)
qed

lemma otp_shares_differ:
  "\<not> (\<exists>N. \<forall>t. six_digit t \<and> hd t \<noteq> CHR ''0'' \<longrightarrow> card {m. m < 2 ^ 52 \<and> gen_otp (m, 52) = t} = N)"
proof
  assume "\<exists>N. \<forall>t. six_digit t \<and> hd t \<noteq> CHR ''0'' \<longrightarrow> card {m. m < 2 ^ 52 \<and> gen_otp (m, 52) = t} = N"
  then obtain N where N: "\<And>t. six_digit t \<and> hd t \<noteq> CHR ''0'' \<Longrightarrow>
      card {m. m < 2 ^ 52 \<and> gen_otp (m, 52) = t} = N" by blast
  have each: "card {m. m < 2 ^ 52 \<and> otp_number (m, 52) = n} = N" if "n \<in> {100000..999999}" for n
  proof -
    from that have "six_digit (digits n) \<and> hd (digits n) \<noteq> CHR ''0''" by (intro digits_six) simp_all
    then have "card {m. m < 2 ^ 52 \<and> gen_otp (m, 52) = digits n} = N" by (rule N)
    moreover have "gen_otp (m, 52) = digits n \<longleftrightarrow> otp_number (m, 52) = n" for m
      unfolding gen_otp_digits using digits_inj by auto
    ultimately show ?thesis by simp
  qed
  have "(\<Sum>n = 100000..999999. card {m. m < 2 ^ 52 \<and> otp_number (m, 52) = n})
      = (\<Sum>n = 100000..999999::nat. N)"
    by (rule sum.cong[OF refl]) (rule each)
  also have "\<dots> = 900000 * N" by simp
  finally have "900000 * N = 2 ^ 52" using otp_partition[of 52] by simp
  then have "(2::nat) ^ 52 mod 900000 = 0" by (metis mod_mult_self1_is_0)
  then show False by simp
qed

text \<open>
  C5, as the code has it. For every draw the code is a string of six decimal digits whose
  first digit is not \<open>0\<close>. Among such strings the codes are uniform up to rounding: when the
  draw is one of the \<open>2 ^ p\<close> multiples of \<open>1 / 2 ^ p\<close> below 1, for a \<open>p\<close> from 33 to 53,
  every string of six decimal digits whose first digit is not \<open>0\<close> is the code of some draw,
  and the number \<open>N\<close> of draws that give it has
  \<open>2 ^ p - 2 ^ (p - 33) - 900000 < 900000 * N < 2 ^ p + 2 ^ (p - 33) + 900000\<close>.
\<close>

theorem gen_otp_six_digits_no_leading_zero:
  "(is_draw r \<longrightarrow> six_digit (gen_otp r) \<and> hd (gen_otp r) \<noteq> CHR ''0'') \<and>
   (six_digit t \<and> hd t \<noteq> CHR ''0'' \<and> 33 \<le> p \<and> p \<le> 53 \<longrightarrow>
      (\<exists>m<2 ^ p. is_draw (m, p) \<and> gen_otp (m, p) = t) \<and>
      2 ^ p < 900000 * card {m. m < 2 ^ p \<and> gen_otp (m, p) = t} + 2 ^ (p - 33) + 900000 \<and>
      900000 * card {m. m < 2 ^ p \<and> gen_otp (m, p) = t} < 2 ^ p + 2 ^ (p - 33) + 900000)"
proof (rule conjI; rule impI)
  assume r: "is_draw r"
  obtain m q where mq: "r = (m, q)" by (cases r)
  from otp_number_range[of m q] r have "100000 \<le> otp_number r" "otp_number r \<le> 999999"
    by (simp_all add: mq)
  then show "six_digit (gen_otp r) \<and> hd (gen_otp r) \<noteq> CHR ''0''"
    unfolding gen_otp_digits by (rule digits_six)
next
  assume t: "six_digit t \<and> hd t \<noteq> CHR ''0'' \<and> 33 \<le> p \<and> p \<le> 53"
  then have p: "33 \<le> p" "p \<le> 53" by simp_all
  from t have "t \<noteq> []" "list_all is_digit t" "length t = 6" "hd t \<noteq> CHR ''0''"
    by (auto simp: six_digit_def)
  then obtain n where n: "digits n = t" "10 ^ (length t - 1) \<le> n" "n < 10 ^ length t"
    using digit_string_is_number by blast
  with \<open>length t = 6\<close> have r: "100000 \<le> n" "n \<le> 999999" by simp_all
  have eq: "gen_otp (m, p) = t \<longleftrightarrow> otp_number (m, p) = n" for m
    unfolding gen_otp_digits using n(1) digits_inj by auto
  from otp_draw_exists[OF r p(1)] obtain m where m: "m < 2 ^ p" "otp_number (m, p) = n" by blast
  from p(2) have "(2::nat) ^ p \<le> 2 ^ 53" by (intro power_increasing) simp_all
  with m(1) p(2) have "is_draw (m, p)" by (simp add: is_draw_def)
  with m have "\<exists>m<2 ^ p. is_draw (m, p) \<and> gen_otp (m, p) = t" using eq by blast
  with otp_count[OF r p(1)]
  show "(\<exists>m<2 ^ p. is_draw (m, p) \<and> gen_otp (m, p) = t) \<and>
      2 ^ p < 900000 * card {m. m < 2 ^ p \<and> gen_otp (m, p) = t} + 2 ^ (p - 33) + 900000 \<and>
      900000 * card {m. m < 2 ^ p \<and> gen_otp (m, p) = t} < 2 ^ p + 2 ^ (p - 33) + 900000"
    unfolding eq by simp
qed

theorem gen_otp_six_digits_witness:
  "is_draw (1, 1) \<and> six_digit (gen_otp (1, 1)) \<and> hd (gen_otp (1, 1)) \<noteq> CHR ''0'' \<and>
   (six_digit ''550000'' \<and> hd ''550000'' \<noteq> CHR ''0'' \<and> (33::nat) \<le> 52 \<and> (52::nat) \<le> 53) \<and>
   (\<exists>m<2 ^ 52. is_draw (m, 52) \<and> gen_otp (m, 52) = ''550000'') \<and>
   2 ^ 52 < 900000 * card {m. m < 2 ^ 52 \<and> gen_otp (m, 52) = ''550000''} + 2 ^ (52 - 33) + 900000 \<and>
   900000 * card {m. m < 2 ^ 52 \<and> gen_otp (m, 52) = ''550000''} < 2 ^ 52 + 2 ^ (52 - 33) + 900000"
proof -
  have a: "is_draw (1, 1)" by (simp add: is_draw_def)
  have b: "six_digit ''550000'' \<and> hd ''550000'' \<noteq> CHR ''0'' \<and> (33::nat) \<le> 52 \<and> (52::nat) \<le> 53"
    by (simp add: six_digit_def is_digit_def)
  from gen_otp_six_digits_no_leading_zero[of "(1, 1)" "''550000''" 52] a b show ?thesis
    by blast
qed

text \<open>
  C5 as stated fails: \<open>012345\<close> is a string of six decimal digits, and no draw gives it.
  Nor are the codes that do occur equally likely to the last draw: with the \<open>2 ^ 52\<close>
  multiples of \<open>1 / 2 ^ 52\<close> as draws, no number is the count of the draws of every code
  (900000 does not divide \<open>2 ^ 52\<close>).
\<close>

theorem gen_otp_leading_zero_counterexample:
  "\<not> (\<forall>t. six_digit t \<longrightarrow> (\<exists>r. is_draw r \<and> gen_otp r = t)) \<and>
   \<not> (\<exists>N. \<forall>t. six_digit t \<and> hd t \<noteq> CHR ''0'' \<longrightarrow>
          card {m. m < 2 ^ 52 \<and> gen_otp (m, 52) = t} = N)"
proof (rule conjI)
  show "\<not> (\<forall>t. six_digit t \<longrightarrow> (\<exists>r. is_draw r \<and> gen_otp r = t))"
  proof
    assume all: "\<forall>t. six_digit t \<longrightarrow> (\<exists>r. is_draw r \<and> gen_otp r = t)"
    have "six_digit ''012345''" by (simp add: six_digit_def is_digit_def)
    with all obtain r where r: "is_draw r" "gen_otp r = ''012345''" by blast
    obtain m q where mq: "r = (m, q)" by (cases r)
    from otp_number_range[of m q] r(1) have "100000 \<le> otp_number r" "otp_number r \<le> 999999"
      by (simp_all add: mq)
    then have "six_digit (digits (otp_number r)) \<and> hd (digits (otp_number r)) \<noteq> CHR ''0''"
      by (rule digits_six)
    with r(2) show False by (simp add: gen_otp_digits)
  qed
  show "\<not> (\<exists>N. \<forall>t. six_digit t \<and> hd t \<noteq> CHR ''0'' \<longrightarrow>
          card {m. m < 2 ^ 52 \<and> gen_otp (m, 52) = t} = N)"
    by (rule otp_shares_differ)
qed

subsection \<open>Levels\<close>

lemma newPoints_total: "newPoints p = (case p of None \<Rightarrow> 0 | Some n \<Rightarrow> n) + 50"
  by (simp add: newPoints_def split: option.splits)

lemma fetch_points_ok:
  "fetch_points e uid s = (None, Some (p, l)) \<Longrightarrow>
   3 \<notin> set (fails e) \<and> (\<exists>u. filter (\<lambda>u. u_id u = uid) (users s) = [u] \<and> points u = p \<and> level u = l)"
  by (auto simp: fetch_points_def call_def single_def split: if_splits list.splits)

lemma store_points_users:
  "4 \<notin> set (fails e) \<Longrightarrow> int4 (newPoints p) \<Longrightarrow>
   users (store_points e uid (None, Some (p, l)) s) =
     map (\<lambda>u. if u_id u = uid then u\<lparr>points := Some (newPoints p), level := newLevel (newPoints p) l\<rparr> else u) (users s)"
  by (simp add: store_points_def update_points_def Let_def)

lemma newLevel_from_1000: "1000 \<le> np \<Longrightarrow> newLevel np l = Some (spec_level np)"
  by (simp add: newLevel_def spec_level_def)

lemma newLevel_below_1000: "np < 1000 \<Longrightarrow> newLevel np l = l"
  by (simp add: newLevel_def)

lemma newLevel_consistent: "l = Some (spec_level (np - 50)) \<Longrightarrow> newLevel np l = Some (spec_level np)"
  by (simp add: newLevel_def spec_level_def)

lemma spec_level_rank_mono: "p \<le> q \<Longrightarrow> level_rank (Some (spec_level p)) \<le> level_rank (Some (spec_level q))"
  by (simp add: spec_level_def level_rank_def)

text \<open>
  C2, as the code has it. After an award that reads the row \<open>(p, l)\<close> and writes, the stored
  total is \<open>newPoints p\<close> and the stored level is \<open>newLevel\<close> of that total and of the level
  read. From 1000 points on it is the level of the table for the new total, whatever
  level was stored before; below 1000 it is the level that was stored before. So a row
  whose level agreed with the table before the award agrees with it afterwards (signup
  creates rows with 0 points and Silver). The table gives every total one of the four
  levels, and its level never decreases as the total grows.
\<close>

theorem award_level_by_total:
  assumes "fetch_points e uid s = (None, Some (p, l))"
    and "4 \<notin> set (fails e)" and "int4 (newPoints p)"
    and "u \<in> set (users (store_points e uid (fetch_points e uid s) s))" and "u_id u = uid"
  shows "points u = Some (newPoints p) \<and> level u = newLevel (newPoints p) l \<and>
         (1000 \<le> newPoints p \<longrightarrow> level u = Some (spec_level (newPoints p))) \<and>
         (newPoints p < 1000 \<longrightarrow> level u = l) \<and>
         (l = Some (spec_level (newPoints p - 50)) \<longrightarrow> level u = Some (spec_level (newPoints p))) \<and>
         (\<forall>a b. a \<le> b \<longrightarrow> level_rank (Some (spec_level a)) \<le> level_rank (Some (spec_level b))) \<and>
         (\<forall>a. spec_level a \<in> set [''Silver'', ''Gold'', ''Diamond'', ''Legendary''])"
proof -
  let ?upd = "\<lambda>u. if u_id u = uid then u\<lparr>points := Some (newPoints p), level := newLevel (newPoints p) l\<rparr> else u"
  from assms(4) have "u \<in> set (map ?upd (users s))"
    unfolding assms(1) store_points_users[OF assms(2,3)] .
  then obtain v where v: "v \<in> set (users s)" "u = ?upd v" by auto
  have "u_id v = uid"
  proof (rule ccontr)
    assume "u_id v \<noteq> uid"
    with v(2) have "u = v" by simp
    with assms(5) \<open>u_id v \<noteq> uid\<close> show False by simp
  qed
  with v(2) have u: "points u = Some (newPoints p)" "level u = newLevel (newPoints p) l"
    by simp_all
  have a: "1000 \<le> newPoints p \<longrightarrow> level u = Some (spec_level (newPoints p))"
    using u(2) newLevel_from_1000 by simp
  have b: "newPoints p < 1000 \<longrightarrow> level u = l"
    using u(2) newLevel_below_1000 by simp
  have c: "l = Some (spec_level (newPoints p - 50)) \<longrightarrow> level u = Some (spec_level (newPoints p))"
    using u(2) newLevel_consistent by simp
  have d: "\<forall>a b. a \<le> b \<longrightarrow> level_rank (Some (spec_level a)) \<le> level_rank (Some (spec_level b))"
    using spec_level_rank_mono by blast
  have e: "\<forall>a. spec_level a \<in> set [''Silver'', ''Gold'', ''Diamond'', ''Legendary'']"
    by (simp add: spec_level_def)
  from u a b c d e show ?thesis by blast
qed


lemma sample_fetch: "fetch_points e0 1 s0 = (None, Some (Some 0, Some ''Silver''))"
  by (simp add: fetch_points_def call_def single_def e0_def s0_def alice_def)

lemma sample_store:
  "users (store_points e0 1 (None, Some (Some 0, Some ''Silver'')) s0) = [alice\<lparr>points := Some 50\<rparr>]"
proof -
  have "4 \<notin> set (fails e0)" by (simp add: e0_def)
  moreover have "int4 (newPoints (Some 0))" by (simp add: int4_def newPoints_def)
  ultimately have "users (store_points e0 1 (None, Some (Some 0, Some ''Silver'')) s0) =
     map (\<lambda>u. if u_id u = 1 then u\<lparr>points := Some (newPoints (Some 0)), level := newLevel (newPoints (Some 0)) (Some ''Silver'')\<rparr> else u) (users s0)"
    by (rule store_points_users)
  also have "\<dots> = [alice\<lparr>points := Some 50\<rparr>]"
    by (simp add: s0_def alice_def newPoints_def newLevel_def)
  finally show ?thesis .
qed

lemma gold_fetch: "fetch_points e0 1 gold_alice = (None, Some (Some 0, Some ''Gold''))"
  by (simp add: fetch_points_def call_def single_def e0_def s0_def alice_def gold_alice_def)

lemma gold_store:
  "users (store_points e0 1 (None, Some (Some 0, Some ''Gold'')) gold_alice) = [alice\<lparr>points := Some 50, level := Some ''Gold''\<rparr>]"
proof -
  have "4 \<notin> set (fails e0)" by (simp add: e0_def)
  moreover have "int4 (newPoints (Some 0))" by (simp add: int4_def newPoints_def)
  ultimately have "users (store_points e0 1 (None, Some (Some 0, Some ''Gold'')) gold_alice) =
     map (\<lambda>u. if u_id u = 1 then u\<lparr>points := Some (newPoints (Some 0)), level := newLevel (newPoints (Some 0)) (Some ''Gold'')\<rparr> else u) (users gold_alice)"
    by (rule store_points_users)
  also have "\<dots> = [alice\<lparr>points := Some 50, level := Some ''Gold''\<rparr>]"
    by (simp add: gold_alice_def s0_def alice_def newPoints_def newLevel_def)
  finally show ?thesis .
qed

text \<open>
  C2 as stated fails: two rows with the same total after the award, 50, carry different
  levels, because the level stored before is written back.
\<close>

theorem award_level_counterexample:
  "map points (users (store_points e0 1 (fetch_points e0 1 s0) s0)) = [Some 50] \<and>
   map level (users (store_points e0 1 (fetch_points e0 1 s0) s0)) = [Some ''Silver''] \<and>
   map points (users (store_points e0 1 (fetch_points e0 1 gold_alice) gold_alice)) = [Some 50] \<and>
   map level (users (store_points e0 1 (fetch_points e0 1 gold_alice) gold_alice)) = [Some ''Gold'']"
  unfolding sample_fetch gold_fetch sample_store gold_store
  by (simp add: alice_def)

theorem award_level_witness:
  "fetch_points e0 1 s0 = (None, Some (Some 0, Some ''Silver'')) \<and> 4 \<notin> set (fails e0) \<and>
   int4 (newPoints (Some 0)) \<and>
   alice\<lparr>points := Some 50\<rparr> \<in> set (users (store_points e0 1 (fetch_points e0 1 s0) s0)) \<and>
   u_id (alice\<lparr>points := Some 50\<rparr>) = 1 \<and>
   points (alice\<lparr>points := Some 50\<rparr>) = Some (newPoints (Some 0)) \<and>
   level (alice\<lparr>points := Some 50\<rparr>) = Some (spec_level (newPoints (Some 0)))"
proof -
  have f: "fetch_points e0 1 s0 = (None, Some (Some 0, Some ''Silver''))" by (rule sample_fetch)
  have g: "4 \<notin> set (fails e0)" by (simp add: e0_def)
  have h: "int4 (newPoints (Some 0))" by (simp add: int4_def newPoints_def)
  have i: "alice\<lparr>points := Some 50\<rparr> \<in> set (users (store_points e0 1 (fetch_points e0 1 s0) s0))"
    unfolding f sample_store by simp
  have j: "u_id (alice\<lparr>points := Some 50\<rparr>) = 1" by (simp add: alice_def)
  have k: "Some ''Silver'' = Some (spec_level (newPoints (Some 0) - 50))"
    by (simp add: spec_level_def newPoints_def)
  from award_level_by_total[OF f g h i j] k f g h i j show ?thesis by blast
qed

subsection \<open>Upload\<close>

lemma storage_upload_tables:
  "storage_upload e k path bytes s = (r, s') \<Longrightarrow> users s' = users s \<and> papers s' = papers s"
  by (auto simp: storage_upload_def split: if_splits)

lemma insert_paper_users:
  "insert_paper e k sub cc ey en cat url uid s = (r, s') \<Longrightarrow> users s' = users s"
  by (auto simp: insert_paper_def Let_def split: option.splits if_splits)

lemma insert_paper_failed:
  "insert_paper e k sub cc ey en cat url uid s = ((Some err, d), s') \<Longrightarrow> s' = s"
  by (auto simp: insert_paper_def Let_def split: option.splits if_splits)

lemma insert_paper_reply:
  "insert_paper e k sub cc ey en cat url uid s = ((None, d), s') \<Longrightarrow>
   \<exists>paper. d = Some paper \<and> papers s' = papers s @ [paper] \<and> uploader_id paper = uid"
  by (auto simp: insert_paper_def Let_def split: option.splits if_splits)

lemma store_points_skipped:
  "userError \<noteq> None \<or> user = None \<Longrightarrow> store_points e uid (userError, user) s = s"
  by (auto simp: store_points_def split: option.splits)

lemma store_points_tables:
  "papers (store_points e uid r s) = papers s \<and> bucket (store_points e uid r s) = bucket s"
  by (cases r) (auto simp: store_points_def update_points_def Let_def split: option.splits)

lemma upload_metadata_failure:
  assumes "auth e tok = Inr uid"
    and "storage_upload e 1 (toString (int (now e)) @ extname (originalname f)) (buffer f) s
           = ((None, d), s1)"
    and "insert_paper e 2 sub cc ey en cat
           (getPublicUrl e (toString (int (now e)) @ extname (originalname f))) uid s1
           = ((Some dbError, d'), s2)"
  shows "upload e tok (Some f) sub cc ey en cat s
           = (res_status_send 500 ''Error saving paper metadata'', s1) \<and>
         papers s1 = papers s \<and> users s1 = users s"
proof -
  from insert_paper_failed[OF assms(3)] have "s2 = s1" .
  with assms have "upload e tok (Some f) sub cc ey en cat s
           = (res_status_send 500 ''Error saving paper metadata'', s1)"
    by (simp add: upload_def Let_def)
  moreover from storage_upload_tables[OF assms(2)]
  have "papers s1 = papers s" "users s1 = users s" by simp_all
  ultimately show ?thesis by simp
qed

lemma upload_award_skipped_aux:
  assumes "auth e tok = Inr uid"
    and "storage_upload e 1 (toString (int (now e)) @ extname (originalname f)) (buffer f) s
           = ((None, d), s1)"
    and "insert_paper e 2 sub cc ey en cat
           (getPublicUrl e (toString (int (now e)) @ extname (originalname f))) uid s1
           = ((None, Some paper), s2)"
    and "fetch_points e uid s2 = (userError, user)"
    and "userError \<noteq> None \<or> user = None"
  shows "upload e tok (Some f) sub cc ey en cat s = (res_json (responsePaper paper), s2) \<and>
         status (res_json (responsePaper paper)) = 200 \<and> users s2 = users s"
proof -
  from store_points_skipped[OF assms(5)] have "store_points e uid (userError, user) s2 = s2" .
  with assms(1-4) have "upload e tok (Some f) sub cc ey en cat s = (res_json (responsePaper paper), s2)"
    by (simp add: upload_def Let_def)
  moreover from insert_paper_users[OF assms(3)] have "users s2 = users s1" .
  moreover from storage_upload_tables[OF assms(2)] have "users s1 = users s" by simp
  ultimately show ?thesis by (simp add: res_json_def)
qed


lemma upload_users_changed:
  assumes "users (snd (upload e tok file sub cc ey en cat s)) \<noteq> users s"
  shows "\<exists>f uid d s1 paper s2.
           file = Some f \<and> auth e tok = Inr uid \<and>
           storage_upload e 1 (toString (int (now e)) @ extname (originalname f)) (buffer f) s
             = ((None, d), s1) \<and>
           insert_paper e 2 sub cc ey en cat
             (getPublicUrl e (toString (int (now e)) @ extname (originalname f))) uid s1
             = ((None, Some paper), s2) \<and>
           upload e tok file sub cc ey en cat s
             = (res_json (responsePaper paper), store_points e uid (fetch_points e uid s2) s2)"
proof (cases "auth e tok")
  case (Inl r)
  with assms show ?thesis by (simp add: upload_def)
next
  case (Inr uid)
  show ?thesis
  proof (cases "file")
    case None
    with assms Inr show ?thesis by (simp add: upload_def)
  next
    case (Some f)
    let ?path = "toString (int (now e)) @ extname (originalname f)"
    obtain se d s1 where st: "storage_upload e 1 ?path (buffer f) s = ((se, d), s1)"
      by (metis prod.exhaust)
    from storage_upload_tables[OF st] have u1: "users s1 = users s" by simp
    show ?thesis
    proof (cases se)
      case (Some storageError)
      with assms Inr \<open>file = Some f\<close> st u1 show ?thesis by (simp add: upload_def Let_def)
    next
      case None
      obtain ie newPaper s2 where ins:
        "insert_paper e 2 sub cc ey en cat (getPublicUrl e ?path) uid s1 = ((ie, newPaper), s2)"
        by (metis prod.exhaust)
      from insert_paper_users[OF ins] have u2: "users s2 = users s1" .
      show ?thesis
      proof (cases ie)
        case (Some dbError)
        with assms Inr \<open>file = Some f\<close> st \<open>se = None\<close> ins u1 u2 show ?thesis
          by (simp add: upload_def Let_def)
      next
        case None
        with ins insert_paper_reply obtain paper where "newPaper = Some paper" by blast
        with Inr \<open>file = Some f\<close> st \<open>se = None\<close> ins \<open>ie = None\<close> show ?thesis
          by (simp add: upload_def Let_def)
      qed
    qed
  qed
qed


text \<open>
  C9. When the blob write succeeds and the metadata insert fails, the request is answered
  500 "Error saving paper metadata", the store is as the blob write left it: no paper row
  is added and no user row (points, level) is changed. And whenever an upload changes a
  user row at all, the blob write and the metadata insert of that request both succeeded
  before.
\<close>

theorem upload_awards_only_after_both_writes:
  "(auth e tok = Inr uid \<and>
    storage_upload e 1 (toString (int (now e)) @ extname (originalname f)) (buffer f) s
      = ((None, d), s1) \<and>
    insert_paper e 2 sub cc ey en cat
      (getPublicUrl e (toString (int (now e)) @ extname (originalname f))) uid s1
      = ((Some dbError, d'), s2)
    \<longrightarrow> upload e tok (Some f) sub cc ey en cat s
          = (res_status_send 500 ''Error saving paper metadata'', s1) \<and>
        papers s1 = papers s \<and> users s1 = users s) \<and>
   (users (snd (upload e tok fl sub cc ey en cat s)) \<noteq> users s
    \<longrightarrow> (\<exists>f uid d s1 paper s2.
          fl = Some f \<and> auth e tok = Inr uid \<and>
          storage_upload e 1 (toString (int (now e)) @ extname (originalname f)) (buffer f) s
            = ((None, d), s1) \<and>
          insert_paper e 2 sub cc ey en cat
            (getPublicUrl e (toString (int (now e)) @ extname (originalname f))) uid s1
            = ((None, Some paper), s2) \<and>
          upload e tok fl sub cc ey en cat s
            = (res_json (responsePaper paper), store_points e uid (fetch_points e uid s2) s2)))"
  using upload_metadata_failure[of e tok uid f s d s1 sub cc ey en cat dbError d' s2]
    upload_users_changed[of e tok fl sub cc ey en cat s]
  by blast

lemma sample_auth: "auth e0 (Some tok0) = Inr 1"
  by (simp add: auth_def tok0_def jwt_key_def e0_def)

lemma sample_storage:
  "storage_upload e0 1 path0 (buffer file0) s0 = ((None, Some path0), s0\<lparr>bucket := [(path0, buffer file0)]\<rparr>)"
  by (simp add: storage_upload_def e0_def s0_def)

lemma sample_insert_missing:
  "insert_paper e0 2 None (Some ''CS102'') (Some ''2021'') (Some ''CAT2'') (Some ''notes'')
     (getPublicUrl e0 path0) 1 (s0\<lparr>bucket := [(path0, buffer file0)]\<rparr>)
   = ((Some ''23502'', None), s0\<lparr>bucket := [(path0, buffer file0)]\<rparr>)"
  by (simp add: insert_paper_def e0_def)

lemma sample_insert:
  "insert_paper e0 2 (Some ''Graphs'') (Some ''CS102'') (Some ''2021'') (Some ''CAT2'') (Some ''notes'')
     (getPublicUrl e0 path0) 1 (s0\<lparr>bucket := [(path0, buffer file0)]\<rparr>)
   = ((None, Some paper7), s0\<lparr>bucket := [(path0, buffer file0)], papers := [paper1, paper2, paper7]\<rparr>)"
  by (simp add: insert_paper_def paper7_def s0_def alice_def paper1_def paper2_def Let_def)
    (simp add: e0_def)

lemma sample_upload_users:
  "users (snd (upload e0 (Some tok0) (Some file0) (Some ''Graphs'') (Some ''CS102'') (Some ''2021'')
      (Some ''CAT2'') (Some ''notes'') s0)) = [alice\<lparr>points := Some 50\<rparr>]"
proof -
  let ?s2 = "s0\<lparr>bucket := [(path0, buffer file0)], papers := [paper1, paper2, paper7]\<rparr>"
  have f: "fetch_points e0 1 ?s2 = (None, Some (Some 0, Some ''Silver''))"
    by (simp add: fetch_points_def call_def single_def e0_def s0_def alice_def)
  have "4 \<notin> set (fails e0)" by (simp add: e0_def)
  moreover have "int4 (newPoints (Some 0))" by (simp add: int4_def newPoints_def)
  ultimately have "users (store_points e0 1 (None, Some (Some 0, Some ''Silver'')) ?s2) =
     map (\<lambda>u. if u_id u = 1 then u\<lparr>points := Some (newPoints (Some 0)),
            level := newLevel (newPoints (Some 0)) (Some ''Silver'')\<rparr> else u) (users ?s2)"
    by (rule store_points_users)
  also have "\<dots> = [alice\<lparr>points := Some 50\<rparr>]"
    by (simp add: s0_def alice_def newPoints_def newLevel_def)
  finally have st: "users (store_points e0 1 (None, Some (Some 0, Some ''Silver'')) ?s2)
     = [alice\<lparr>points := Some 50\<rparr>]" .
  have "upload e0 (Some tok0) (Some file0) (Some ''Graphs'') (Some ''CS102'') (Some ''2021'')
      (Some ''CAT2'') (Some ''notes'') s0
      = (res_json (responsePaper paper7), store_points e0 1 (None, Some (Some 0, Some ''Silver'')) ?s2)"
    using sample_auth sample_storage sample_insert f
    by (simp add: upload_def Let_def path0_def)
  with st show ?thesis by simp
qed

theorem upload_awards_only_after_both_writes_witness:
  "auth e0 (Some tok0) = Inr 1 \<and>
   storage_upload e0 1 (toString (int (now e0)) @ extname (originalname file0)) (buffer file0) s0
     = ((None, Some path0), s0\<lparr>bucket := [(path0, buffer file0)]\<rparr>) \<and>
   insert_paper e0 2 None (Some ''CS102'') (Some ''2021'') (Some ''CAT2'') (Some ''notes'')
     (getPublicUrl e0 (toString (int (now e0)) @ extname (originalname file0))) 1
     (s0\<lparr>bucket := [(path0, buffer file0)]\<rparr>)
     = ((Some ''23502'', None), s0\<lparr>bucket := [(path0, buffer file0)]\<rparr>) \<and>
   upload e0 (Some tok0) (Some file0) None (Some ''CS102'') (Some ''2021'') (Some ''CAT2'') (Some ''notes'') s0
     = (res_status_send 500 ''Error saving paper metadata'', s0\<lparr>bucket := [(path0, buffer file0)]\<rparr>) \<and>
   papers (s0\<lparr>bucket := [(path0, buffer file0)]\<rparr>) = papers s0 \<and>
   users (s0\<lparr>bucket := [(path0, buffer file0)]\<rparr>) = users s0 \<and>
   users (snd (upload e0 (Some tok0) (Some file0) (Some ''Graphs'') (Some ''CS102'') (Some ''2021'')
      (Some ''CAT2'') (Some ''notes'') s0)) \<noteq> users s0 \<and>
   (\<exists>f uid d s1 paper s2.
      Some file0 = Some f \<and> auth e0 (Some tok0) = Inr uid \<and>
      storage_upload e0 1 (toString (int (now e0)) @ extname (originalname f)) (buffer f) s0
        = ((None, d), s1) \<and>
      insert_paper e0 2 (Some ''Graphs'') (Some ''CS102'') (Some ''2021'') (Some ''CAT2'') (Some ''notes'')
        (getPublicUrl e0 (toString (int (now e0)) @ extname (originalname f))) uid s1
        = ((None, Some paper), s2) \<and>
      upload e0 (Some tok0) (Some file0) (Some ''Graphs'') (Some ''CS102'') (Some ''2021'')
        (Some ''CAT2'') (Some ''notes'') s0
        = (res_json (responsePaper paper), store_points e0 uid (fetch_points e0 uid s2) s2))"
proof -
  have u: "users (snd (upload e0 (Some tok0) (Some file0) (Some ''Graphs'') (Some ''CS102'') (Some ''2021'')
      (Some ''CAT2'') (Some ''notes'') s0)) \<noteq> users s0"
    unfolding sample_upload_users by (simp add: s0_def alice_def)
  have a: "auth e0 (Some tok0) = Inr 1" by (rule sample_auth)
  have b: "storage_upload e0 1 (toString (int (now e0)) @ extname (originalname file0)) (buffer file0) s0
     = ((None, Some path0), s0\<lparr>bucket := [(path0, buffer file0)]\<rparr>)"
    using sample_storage by (simp add: path0_def)
  have c: "insert_paper e0 2 None (Some ''CS102'') (Some ''2021'') (Some ''CAT2'') (Some ''notes'')
     (getPublicUrl e0 (toString (int (now e0)) @ extname (originalname file0))) 1
     (s0\<lparr>bucket := [(path0, buffer file0)]\<rparr>)
     = ((Some ''23502'', None), s0\<lparr>bucket := [(path0, buffer file0)]\<rparr>)"
    using sample_insert_missing by (simp add: path0_def)
  from upload_awards_only_after_both_writes[of e0 "Some tok0" 1 file0 s0 "Some path0"
      "s0\<lparr>bucket := [(path0, buffer file0)]\<rparr>" None "Some ''CS102''" "Some ''2021''" "Some ''CAT2''"
      "Some ''notes''" "''23502''" None "s0\<lparr>bucket := [(path0, buffer file0)]\<rparr>" "Some file0"]
    upload_awards_only_after_both_writes[of e0 "Some tok0" 1 file0 s0 None s0 "Some ''Graphs''"
      "Some ''CS102''" "Some ''2021''" "Some ''CAT2''" "Some ''notes''" "''23502''" None s0 "Some file0"]
    a b c u
  show ?thesis by blast
qed

text \<open>
  C10. When the blob write and the metadata insert succeeded and the read of the uploader's
  row answers with an error or without a row, the request is still answered 200 with the
  paper, the update is not issued, and no user row (points, level) is changed.
\<close>

theorem upload_award_skipped:
  "auth e tok = Inr uid \<and>
   storage_upload e 1 (toString (int (now e)) @ extname (originalname f)) (buffer f) s
     = ((None, d), s1) \<and>
   insert_paper e 2 sub cc ey en cat
     (getPublicUrl e (toString (int (now e)) @ extname (originalname f))) uid s1
     = ((None, Some paper), s2) \<and>
   fetch_points e uid s2 = (userError, user) \<and> (userError \<noteq> None \<or> user = None)
   \<longrightarrow> upload e tok (Some f) sub cc ey en cat s = (res_json (responsePaper paper), s2) \<and>
       status (res_json (responsePaper paper)) = 200 \<and>
       body (res_json (responsePaper paper)) = JsonBody (responsePaper paper) \<and>
       users s2 = users s"
  using upload_award_skipped_aux[of e tok uid f s d s1 sub cc ey en cat paper s2 userError user]
  by (simp add: res_json_def)


lemma sample_auth3: "auth e3 (Some tok0) = Inr 1"
  by (simp add: auth_def tok0_def jwt_key_def e3_def e0_def)

lemma sample_storage3:
  "storage_upload e3 1 (toString (int (now e3)) @ extname (originalname file0)) (buffer file0) s0
     = ((None, Some path0), s0\<lparr>bucket := [(path0, buffer file0)]\<rparr>)"
  by (simp add: storage_upload_def e3_def path0_def s0_def)

lemma sample_insert3:
  "insert_paper e3 2 (Some ''Graphs'') (Some ''CS102'') (Some ''2021'') (Some ''CAT2'') (Some ''notes'')
     (getPublicUrl e3 (toString (int (now e3)) @ extname (originalname file0))) 1
     (s0\<lparr>bucket := [(path0, buffer file0)]\<rparr>)
   = ((None, Some paper7), s0\<lparr>bucket := [(path0, buffer file0)], papers := [paper1, paper2, paper7]\<rparr>)"
  by (simp add: insert_paper_def paper7_def s0_def alice_def paper1_def paper2_def Let_def e3_def
      getPublicUrl_def path0_def)
    (simp add: e0_def)

lemma sample_fetch3:
  "fetch_points e3 1 (s0\<lparr>bucket := [(path0, buffer file0)], papers := [paper1, paper2, paper7]\<rparr>)
     = (Some ''request failed'', None)"
  by (simp add: fetch_points_def call_def e3_def)

theorem upload_award_skipped_witness:
  "auth e3 (Some tok0) = Inr 1 \<and>
   storage_upload e3 1 (toString (int (now e3)) @ extname (originalname file0)) (buffer file0) s0
     = ((None, Some path0), s0\<lparr>bucket := [(path0, buffer file0)]\<rparr>) \<and>
   insert_paper e3 2 (Some ''Graphs'') (Some ''CS102'') (Some ''2021'') (Some ''CAT2'') (Some ''notes'')
     (getPublicUrl e3 (toString (int (now e3)) @ extname (originalname file0))) 1
     (s0\<lparr>bucket := [(path0, buffer file0)]\<rparr>)
     = ((None, Some paper7), s0\<lparr>bucket := [(path0, buffer file0)], papers := [paper1, paper2, paper7]\<rparr>) \<and>
   fetch_points e3 1 (s0\<lparr>bucket := [(path0, buffer file0)], papers := [paper1, paper2, paper7]\<rparr>)
     = (Some ''request failed'', None) \<and>
   upload e3 (Some tok0) (Some file0) (Some ''Graphs'') (Some ''CS102'') (Some ''2021'') (Some ''CAT2'')
     (Some ''notes'') s0
     = (res_json (responsePaper paper7),
        s0\<lparr>bucket := [(path0, buffer file0)], papers := [paper1, paper2, paper7]\<rparr>) \<and>
   status (res_json (responsePaper paper7)) = 200 \<and>
   users (s0\<lparr>bucket := [(path0, buffer file0)], papers := [paper1, paper2, paper7]\<rparr>) = users s0"
  using upload_award_skipped[of e3 "Some tok0" 1 file0 s0 "Some path0"
      "s0\<lparr>bucket := [(path0, buffer file0)]\<rparr>" "Some ''Graphs''" "Some ''CS102''" "Some ''2021''"
      "Some ''CAT2''" "Some ''notes''" paper7
      "s0\<lparr>bucket := [(path0, buffer file0)], papers := [paper1, paper2, paper7]\<rparr>"
      "Some ''request failed''" None]
    sample_auth3 sample_storage3 sample_insert3 sample_fetch3
  by blast

subsection \<open>Signup and login\<close>

lemma filter_unique:
  "distinct (map f xs) \<Longrightarrow> x \<in> set xs \<Longrightarrow> filter (\<lambda>y. f y = f x) xs = [x]"
proof (induction xs)
  case Nil
  then show ?case by simp
next
  case (Cons a xs)
  show ?case
  proof (cases "a = x")
    case True
    with Cons.prems have "f x \<notin> f ` set xs" by simp
    then have "filter (\<lambda>y. f y = f x) xs = []"
      by (metis (mono_tags, lifting) filter_False imageI)
    with True show ?thesis by simp
  next
    case False
    with Cons.prems have x: "x \<in> set xs" and d: "distinct (map f xs)" and "f a \<notin> f ` set xs"
      by simp_all
    with x have "f a \<noteq> f x" by auto
    with Cons.IH[OF d x] show ?thesis by simp
  qed
qed

lemma filter_absent: "k \<notin> set (map f xs) \<Longrightarrow> filter (\<lambda>y. f y = k) xs = []"
  by (auto simp: filter_empty_conv)

lemma insert_user_rejects:
  "em \<in> set (map email (users s)) \<Longrightarrow>
   \<exists>err. insert_user e k fname lname em ph pw s = ((Some err, None), s)"
  by (simp add: insert_user_def Let_def)

lemma insert_user_accepts:
  "insert_user e k fname lname em ph pw s = ((None, d), s') \<Longrightarrow>
   \<exists>u. d = Some u \<and> users s' = users s @ [u] \<and> email u = em \<and> password u = pw \<and>
       em \<notin> set (map email (users s)) \<and> papers s' = papers s \<and> otp_codes s' = otp_codes s"
  by (auto simp: insert_user_def Let_def split: if_splits)

lemma signup_existing_keeps_store:
  assumes "em \<in> set (map email (users s))"
  shows "snd (signup e firstName lastName em ph pw s) = s \<and>
         status (fst (signup e firstName lastName em ph pw s)) \<noteq> 200"
proof -
  obtain er d where c: "call e 1 (single (filter (\<lambda>u. email u = em) (users s))) = (er, d)"
    by (metis prod.exhaust)
  show ?thesis
  proof (cases d)
    case (Some existingUser)
    with c show ?thesis by (simp add: signup_def res_status_json_def)
  next
    case None
    from insert_user_rejects[OF assms] obtain err where
      "insert_user e 2 firstName lastName em ph (bcrypt_hash pw (salt e)) s = ((Some err, None), s)"
      by blast
    with c None show ?thesis by (simp add: signup_def Let_def res_status_send_def)
  qed
qed

lemma signup_existing_conflict:
  assumes "em \<in> set (map email (users s))" and "distinct (map email (users s))"
    and "1 \<notin> set (fails e)"
  shows "fst (signup e firstName lastName em ph pw s) = res_status_json 400 (msg ''User already exists'')"
proof -
  from assms(1) obtain u where u: "u \<in> set (users s)" "email u = em" by auto
  from filter_unique[OF assms(2) u(1)] u(2) have "filter (\<lambda>y. email y = em) (users s) = [u]"
    by simp
  with assms(3) have "call e 1 (single (filter (\<lambda>u. email u = em) (users s))) = (None, Some u)"
    by (simp add: call_def single_def)
  then show ?thesis by (simp add: signup_def)
qed

lemma signup_success:
  assumes "signup e firstName lastName em ph pw s = (r, s')" and "status r = 200"
  shows "\<exists>u. users s' = users s @ [u] \<and> email u = em \<and> password u = bcrypt_hash pw (salt e) \<and>
             em \<notin> set (map email (users s)) \<and>
             r = res_json (JObj [(''token'', JTok (jwt_sign (u_id u) (jwt_key e) (now e)))])"
proof -
  obtain er d where c: "call e 1 (single (filter (\<lambda>u. email u = em) (users s))) = (er, d)"
    by (metis prod.exhaust)
  show ?thesis
  proof (cases d)
    case (Some existingUser)
    with c assms show ?thesis by (auto simp: signup_def res_status_json_def)
  next
    case None
    obtain ie nu s2 where ins:
      "insert_user e 2 firstName lastName em ph (bcrypt_hash pw (salt e)) s = ((ie, nu), s2)"
      by (metis prod.exhaust)
    show ?thesis
    proof (cases ie)
      case (Some err)
      with c None ins assms show ?thesis by (auto simp: signup_def Let_def res_status_send_def)
    next
      case None': None
      with ins insert_user_accepts obtain u where u: "nu = Some u" "users s2 = users s @ [u]"
        "email u = em" "password u = bcrypt_hash pw (salt e)" "em \<notin> set (map email (users s))"
        by blast
      with c None ins None' assms have "s' = s2"
        "r = res_json (JObj [(''token'', JTok (jwt_sign (u_id u) (jwt_key e) (now e)))])"
        by (auto simp: signup_def Let_def)
      with u show ?thesis by blast
    qed
  qed
qed

lemma jwt_roundtrip:
  "t div 1000 < iat div 1000 + 3600 \<Longrightarrow> jwt_verify (jwt_sign uid key iat) key t = Some uid"
  by (simp add: jwt_sign_def)

lemma bcrypt_roundtrip: "bcrypt_compare pw (bcrypt_hash pw sl)"
  by (simp add: bcrypt_compare_def bcrypt_hash_def)

lemma login_unique_row:
  assumes "filter (\<lambda>y. email y = em) (users s) = [u]" and "1 \<notin> set (fails e)"
    and "bcrypt_compare pw (password u)"
  shows "login e em pw s = (res_json (JObj [(''token'', JTok (jwt_sign (u_id u) (jwt_key e) (now e)))]), s)"
  using assms by (simp add: login_def call_def single_def)

text \<open>
  C8. When a signup is answered 200, it appended one user row with that email, and its
  answer carries a token for that row's identifier. A login with the same email and
  secret on the resulting store, whose lookup the store answers, is answered 200 with a
  token, and that token, verified under the login's key at any time before the hour is
  over, yields the identifier of the row the signup created.
\<close>

theorem signup_then_login:
  "signup e firstName lastName em ph pw s = (r, s') \<and> status r = 200 \<and> 1 \<notin> set (fails e') \<and>
   t div 1000 < now e' div 1000 + 3600
   \<longrightarrow> (\<exists>u tok. users s' = users s @ [u] \<and> email u = em \<and>
          r = res_json (JObj [(''token'', JTok (jwt_sign (u_id u) (jwt_key e) (now e)))]) \<and>
          login e' em pw s' = (res_json (JObj [(''token'', JTok tok)]), s') \<and>
          jwt_verify tok (jwt_key e') t = Some (u_id u))"
proof
  assume a: "signup e firstName lastName em ph pw s = (r, s') \<and> status r = 200 \<and>
    1 \<notin> set (fails e') \<and> t div 1000 < now e' div 1000 + 3600"
  then obtain u where u: "users s' = users s @ [u]" "email u = em"
    "password u = bcrypt_hash pw (salt e)" "em \<notin> set (map email (users s))"
    "r = res_json (JObj [(''token'', JTok (jwt_sign (u_id u) (jwt_key e) (now e)))])"
    using signup_success by blast
  from u(1,2,4) have "filter (\<lambda>y. email y = em) (users s') = [u]"
    by (simp add: filter_absent)
  moreover from u(3) have "bcrypt_compare pw (password u)" by (simp add: bcrypt_roundtrip)
  ultimately have "login e' em pw s'
      = (res_json (JObj [(''token'', JTok (jwt_sign (u_id u) (jwt_key e') (now e')))]), s')"
    using a login_unique_row by blast
  moreover from a have "jwt_verify (jwt_sign (u_id u) (jwt_key e') (now e')) (jwt_key e') t = Some (u_id u)"
    by (simp add: jwt_roundtrip)
  ultimately show "\<exists>u tok. users s' = users s @ [u] \<and> email u = em \<and>
          r = res_json (JObj [(''token'', JTok (jwt_sign (u_id u) (jwt_key e) (now e)))]) \<and>
          login e' em pw s' = (res_json (JObj [(''token'', JTok tok)]), s') \<and>
          jwt_verify tok (jwt_key e') t = Some (u_id u)"
    using u by blast
qed

text \<open>
  C6, as the code has it. When a user row with exactly this email exists (compared as
  text, case included), a signup with it leaves the store as it is and is not answered
  200; with the emails of the store distinct, as the unique constraint keeps them, and the
  existence check answered, the answer is 400 "User already exists".
\<close>

theorem signup_existing_email:
  "em \<in> set (map email (users s)) \<longrightarrow>
     snd (signup e firstName lastName em ph pw s) = s \<and>
     status (fst (signup e firstName lastName em ph pw s)) \<noteq> 200 \<and>
     (distinct (map email (users s)) \<and> 1 \<notin> set (fails e) \<longrightarrow>
        fst (signup e firstName lastName em ph pw s) = res_status_json 400 (msg ''User already exists''))"
  using signup_existing_keeps_store[of em s e firstName lastName ph pw]
    signup_existing_conflict[of em s e firstName lastName ph pw]
  by blast


lemma sample_signup:
  "em \<noteq> ''a@x.com'' \<Longrightarrow>
   signup e0 ''C'' ''D'' em ''2'' ''pw654321'' s0
     = (res_json (JObj [(''token'', JTok (Jwt 7 ''secret'' 3605))]), s0\<lparr>users := [alice, carol em]\<rparr>)"
  by (simp add: signup_def call_def single_def insert_user_def bcrypt_hash_def jwt_sign_def
      jwt_key_def carol_def Let_def e0_def s0_def alice_def)

theorem signup_then_login_witness:
  "signup e0 ''C'' ''D'' ''c@x.com'' ''2'' ''pw654321'' s0
     = (res_json (JObj [(''token'', JTok (Jwt 7 ''secret'' 3605))]),
        s0\<lparr>users := [alice, carol ''c@x.com'']\<rparr>) \<and>
   status (res_json (JObj [(''token'', JTok (Jwt 7 ''secret'' 3605))])) = 200 \<and>
   1 \<notin> set (fails e0) \<and> now e0 div 1000 < now e0 div 1000 + 3600 \<and>
   (\<exists>u tok. users (s0\<lparr>users := [alice, carol ''c@x.com'']\<rparr>) = users s0 @ [u] \<and>
      email u = ''c@x.com'' \<and>
      login e0 ''c@x.com'' ''pw654321'' (s0\<lparr>users := [alice, carol ''c@x.com'']\<rparr>)
        = (res_json (JObj [(''token'', JTok tok)]), s0\<lparr>users := [alice, carol ''c@x.com'']\<rparr>) \<and>
      jwt_verify tok (jwt_key e0) (now e0) = Some (u_id u))"
proof -
  have a: "signup e0 ''C'' ''D'' ''c@x.com'' ''2'' ''pw654321'' s0
     = (res_json (JObj [(''token'', JTok (Jwt 7 ''secret'' 3605))]),
        s0\<lparr>users := [alice, carol ''c@x.com'']\<rparr>)"
    by (rule sample_signup) simp
  have b: "status (res_json (JObj [(''token'', JTok (Jwt 7 ''secret'' 3605))])) = 200"
    by (simp add: res_json_def)
  have c: "1 \<notin> set (fails e0)" by (simp add: e0_def)
  have d: "now e0 div 1000 < now e0 div 1000 + 3600" by simp
  from signup_then_login[of e0 "''C''" "''D''" "''c@x.com''" "''2''" "''pw654321''" s0
      "res_json (JObj [(''token'', JTok (Jwt 7 ''secret'' 3605))])"
      "s0\<lparr>users := [alice, carol ''c@x.com'']\<rparr>" e0 "now e0"] a b c d
  show ?thesis by blast
qed

theorem signup_existing_email_witness:
  "''a@x.com'' \<in> set (map email (users s0)) \<and> distinct (map email (users s0)) \<and>
   1 \<notin> set (fails e0) \<and>
   snd (signup e0 ''C'' ''D'' ''a@x.com'' ''2'' ''pw654321'' s0) = s0 \<and>
   fst (signup e0 ''C'' ''D'' ''a@x.com'' ''2'' ''pw654321'' s0)
     = res_status_json 400 (msg ''User already exists'')"
proof -
  have a: "''a@x.com'' \<in> set (map email (users s0))" by (simp add: s0_def alice_def)
  have b: "distinct (map email (users s0))" by (simp add: s0_def)
  have c: "1 \<notin> set (fails e0)" by (simp add: e0_def)
  from signup_existing_email[of "''a@x.com''" s0 e0 "''C''" "''D''" "''2''" "''pw654321''"] a b c
  show ?thesis by blast
qed

lemma lower_sample: "map lower ''A@x.com'' = ''a@x.com''" "map lower ''a@x.com'' = ''a@x.com''"
  by code_simp+

text \<open>
  C6 as stated fails: the store holds \<open>a@x.com\<close>; a signup with \<open>A@x.com\<close>, equal to
  it case aside, is answered 200 and adds a second row.
\<close>

theorem signup_case_variant_counterexample:
  "alice \<in> set (users s0) \<and> map lower ''A@x.com'' = map lower (email alice) \<and>
   status (fst (signup e0 ''C'' ''D'' ''A@x.com'' ''2'' ''pw654321'' s0)) = 200 \<and>
   users (snd (signup e0 ''C'' ''D'' ''A@x.com'' ''2'' ''pw654321'' s0)) = [alice, carol ''A@x.com'']"
proof -
  have "signup e0 ''C'' ''D'' ''A@x.com'' ''2'' ''pw654321'' s0
     = (res_json (JObj [(''token'', JTok (Jwt 7 ''secret'' 3605))]), s0\<lparr>users := [alice, carol ''A@x.com'']\<rparr>)"
    by (rule sample_signup) simp
  then have "status (fst (signup e0 ''C'' ''D'' ''A@x.com'' ''2'' ''pw654321'' s0)) = 200"
    "users (snd (signup e0 ''C'' ''D'' ''A@x.com'' ''2'' ''pw654321'' s0)) = [alice, carol ''A@x.com'']"
    by (simp_all add: res_json_def)
  moreover have "email alice = ''a@x.com''" by (simp add: alice_def)
  then have "map lower ''A@x.com'' = map lower (email alice)" by (simp only: lower_sample)
  moreover have "alice \<in> set (users s0)" by (simp add: s0_def)
  ultimately show ?thesis by blast
qed

subsection \<open>Password reset\<close>

lemma update_password_absent:
  "em \<notin> set (map email (users s)) \<Longrightarrow> snd (update_password e k em h s) = s"
proof -
  assume "em \<notin> set (map email (users s))"
  then have "map (\<lambda>u. if email u = em then u\<lparr>password := h\<rparr> else u) (users s) = users s"
    by (intro map_idI) auto
  then show ?thesis by (simp add: update_password_def)
qed

lemma reset_password_store: "snd (reset_password e em np s) = snd (update_password e 1 em (bcrypt_hash np (salt e)) s)"
  by (simp add: reset_password_def Let_def update_password_def)

lemma reset_password_answer:
  "1 \<notin> set (fails e) \<Longrightarrow> fst (reset_password e em np s) = res_json (msg ''Password reset successful'')"
  by (simp add: reset_password_def Let_def update_password_def)

lemma reset_password_users:
  "1 \<notin> set (fails e) \<Longrightarrow>
   users (snd (reset_password e em np s)) =
     map (\<lambda>u. if email u = em then u\<lparr>password := bcrypt_hash np (salt e)\<rparr> else u) (users s)"
  by (simp add: reset_password_def Let_def update_password_def)

lemma verify_otp_store: "snd (verify_otp e em code s) = s"
  by (simp add: verify_otp_def split: prod.splits option.splits)

lemma newest_first_Nil: "newest_first rows = [] \<longleftrightarrow> rows = []"
proof -
  have "length (newest_first rows) = length rows" by (simp add: newest_first_def)
  then show ?thesis by (metis length_0_conv)
qed

lemma verify_otp_answer:
  "fst (verify_otp e em code s)
     = (if 1 \<notin> set (fails e) \<and> (\<exists>r\<in>set (otp_codes s). o_email r = em \<and> otp r = code)
        then res_json (msg ''OTP verified'') else res_status_json 400 (msg ''Invalid OTP''))"
proof -
  let ?xs = "filter (\<lambda>r. o_email r = em \<and> otp r = code) (otp_codes s)"
  have ex: "(\<exists>r\<in>set (otp_codes s). o_email r = em \<and> otp r = code) \<longleftrightarrow> ?xs \<noteq> []"
    by (simp add: filter_empty_conv)
  show ?thesis
  proof (cases "newest_first ?xs")
    case Nil
    then have "?xs = []" by (simp only: newest_first_Nil)
    with Nil show ?thesis unfolding ex
      by (simp add: verify_otp_def single_def call_def)
  next
    case (Cons y ys)
    then have "?xs \<noteq> []" using newest_first_Nil[of ?xs] by simp
    with Cons show ?thesis unfolding ex
      by (simp add: verify_otp_def single_def call_def)
  qed
qed

text \<open>
  C3, as the code has it. For an email with no user row, reset-password writes nothing,
  and when its update is answered by the store the answer is 200 "Password reset
  successful" (there is no "not found" answer). A stored secret changes only when a row
  with that email exists: the update rewrites the secret of exactly the rows with that
  email, and no one-time code takes part in it. verify-otp writes nothing; it answers 200
  "OTP verified" when its query is answered and some stored code row has that email and
  that code, and 400 "Invalid OTP" otherwise.
\<close>

theorem reset_password_by_email_only:
  "(em \<notin> set (map email (users s)) \<longrightarrow>
      snd (reset_password e em np s) = s \<and>
      (1 \<notin> set (fails e) \<longrightarrow>
         fst (reset_password e em np s) = res_json (msg ''Password reset successful''))) \<and>
   (users (snd (reset_password e em np s)) \<noteq> users s \<longrightarrow> em \<in> set (map email (users s))) \<and>
   (1 \<notin> set (fails e) \<longrightarrow>
      users (snd (reset_password e em np s)) =
        map (\<lambda>u. if email u = em then u\<lparr>password := bcrypt_hash np (salt e)\<rparr> else u) (users s)) \<and>
   snd (verify_otp e em code s) = s \<and>
   fst (verify_otp e em code s)
     = (if 1 \<notin> set (fails e) \<and> (\<exists>r\<in>set (otp_codes s). o_email r = em \<and> otp r = code)
        then res_json (msg ''OTP verified'') else res_status_json 400 (msg ''Invalid OTP''))"
proof -
  have a: "em \<notin> set (map email (users s)) \<longrightarrow> snd (reset_password e em np s) = s"
    using update_password_absent[of em s e 1] reset_password_store[of e em np s] by simp
  then have b: "users (snd (reset_password e em np s)) \<noteq> users s \<longrightarrow> em \<in> set (map email (users s))"
    by metis
  from a b reset_password_answer[of e em np s] reset_password_users[of e em np s]
    verify_otp_store[of e em code s] verify_otp_answer[of e em code s]
  show ?thesis by blast
qed

lemma sample_reset:
  "reset_password e0 em ''new'' s0
     = (res_json (msg ''Password reset successful''),
        s0\<lparr>users := [if em = ''a@x.com'' then alice\<lparr>password := Bcrypt ''s'' ''new''\<rparr> else alice]\<rparr>)"
  by (simp add: reset_password_def update_password_def bcrypt_hash_def Let_def e0_def s0_def alice_def)

theorem reset_password_by_email_only_witness:
  "''nobody@x.com'' \<notin> set (map email (users s0)) \<and> 1 \<notin> set (fails e0) \<and>
   snd (reset_password e0 ''nobody@x.com'' ''new'' s0) = s0 \<and>
   fst (reset_password e0 ''nobody@x.com'' ''new'' s0) = res_json (msg ''Password reset successful'') \<and>
   users (snd (reset_password e0 ''a@x.com'' ''new'' s0)) \<noteq> users s0 \<and>
   ''a@x.com'' \<in> set (map email (users s0)) \<and>
   users (snd (reset_password e0 ''a@x.com'' ''new'' s0)) =
     map (\<lambda>u. if email u = ''a@x.com'' then u\<lparr>password := bcrypt_hash ''new'' (salt e0)\<rparr> else u)
       (users s0) \<and>
   snd (verify_otp e0 ''a@x.com'' ''123456'' s0) = s0 \<and>
   (\<exists>r\<in>set (otp_codes s_otp). o_email r = ''a@x.com'' \<and> otp r = ''550000'') \<and>
   fst (verify_otp e0 ''a@x.com'' ''550000'' s_otp) = res_json (msg ''OTP verified'') \<and>
   \<not> (\<exists>r\<in>set (otp_codes s_otp). o_email r = ''a@x.com'' \<and> otp r = ''123456'') \<and>
   fst (verify_otp e0 ''a@x.com'' ''123456'' s_otp) = res_status_json 400 (msg ''Invalid OTP'') \<and>
   fst (verify_otp e0 ''a@x.com'' ''123456'' s0) = res_status_json 400 (msg ''Invalid OTP'')"
proof -
  have a: "''nobody@x.com'' \<notin> set (map email (users s0))" by (simp add: s0_def alice_def)
  have b: "1 \<notin> set (fails e0)" by (simp add: e0_def)
  have c: "users (snd (reset_password e0 ''a@x.com'' ''new'' s0)) \<noteq> users s0"
    unfolding sample_reset by (simp add: s0_def alice_def)
  have d: "\<exists>r\<in>set (otp_codes s_otp). o_email r = ''a@x.com'' \<and> otp r = ''550000''"
    by (simp add: s_otp_def)
  have f: "\<not> (\<exists>r\<in>set (otp_codes s_otp). o_email r = ''a@x.com'' \<and> otp r = ''123456'')"
    by (simp add: s_otp_def)
  have g: "\<not> (\<exists>r\<in>set (otp_codes s0). o_email r = ''a@x.com'' \<and> otp r = ''123456'')"
    by (simp add: s0_def)
  have v1: "fst (verify_otp e0 ''a@x.com'' ''550000'' s_otp) = res_json (msg ''OTP verified'')"
    using reset_password_by_email_only[of "''a@x.com''" s_otp e0 "''new''" "''550000''"] b d
    by (simp only: if_True simp_thms)
  have v2: "fst (verify_otp e0 ''a@x.com'' ''123456'' s_otp) = res_status_json 400 (msg ''Invalid OTP'')"
    using reset_password_by_email_only[of "''a@x.com''" s_otp e0 "''new''" "''123456''"] f
    by (simp only: if_False simp_thms)
  have v3: "fst (verify_otp e0 ''a@x.com'' ''123456'' s0) = res_status_json 400 (msg ''Invalid OTP'')"
    using reset_password_by_email_only[of "''a@x.com''" s0 e0 "''new''" "''123456''"] g
    by (simp only: if_False simp_thms)
  from reset_password_by_email_only[of "''nobody@x.com''" s0 e0 "''new''" "''123456''"]
    reset_password_by_email_only[of "''a@x.com''" s0 e0 "''new''" "''123456''"] a b c d f v1 v2 v3
  show ?thesis by blast
qed

text \<open>
  C3 as stated fails: for an email without a user the answer is 200, not "not found"; and
  with no one-time code stored at all, reset-password replaces the secret of an existing
  user.
\<close>

theorem reset_password_counterexample:
  "''nobody@x.com'' \<notin> set (map email (users s0)) \<and>
   reset_password e0 ''nobody@x.com'' ''new'' s0 = (res_json (msg ''Password reset successful''), s0) \<and>
   status (res_json (msg ''Password reset successful'')) = 200 \<and>
   otp_codes s0 = [] \<and>
   map password (users s0) = [Bcrypt ''s'' ''pw123456''] \<and>
   map password (users (snd (reset_password e0 ''a@x.com'' ''new'' s0))) = [Bcrypt ''s'' ''new'']"
proof -
  have "reset_password e0 ''nobody@x.com'' ''new'' s0 = (res_json (msg ''Password reset successful''), s0)"
    unfolding sample_reset by (simp add: s0_def)
  moreover have "map password (users (snd (reset_password e0 ''a@x.com'' ''new'' s0))) = [Bcrypt ''s'' ''new'']"
    unfolding sample_reset by simp
  moreover have "''nobody@x.com'' \<notin> set (map email (users s0))" "otp_codes s0 = []"
    "map password (users s0) = [Bcrypt ''s'' ''pw123456'']"
    by (simp_all add: s0_def alice_def)
  moreover have "status (res_json (msg ''Password reset successful'')) = 200"
    by (simp add: res_json_def)
  ultimately show ?thesis by blast
qed

subsection \<open>The answer of send-otp\<close>

lemma sample_otp: "gen_otp (random e0) = ''550000''"
proof -
  have a: "round53 900000 = 900000" by (rule round53_small) simp
  have b: "round53 1100000 = 1100000" by (rule round53_small) simp
  have "otp_number (1, 1) = 550000" unfolding otp_number_eq by (simp add: a b)
  then have "gen_otp (1, 1) = digits 550000" unfolding gen_otp_digits by (rule arg_cong)
  also have "\<dots> = ''550000''" by (simp add: digits_large digits_small digit_char_vals)
  finally have "gen_otp (1, 1) = ''550000''" .
  moreover have "random e0 = (1, 1)" by (simp add: e0_def)
  ultimately show ?thesis by (simp only:)
qed

lemma send_otp_answer:
  "1 \<notin> set (fails e) \<Longrightarrow>
   send_otp e em s
     = (res_json (JObj [(''msg'', JStr ''OTP sent successfully''), (''otp'', JStr (gen_otp (random e)))]),
        s\<lparr>otp_codes := otp_codes s @ [\<lparr>o_email = em, otp = gen_otp (random e), o_created_at = now e\<rparr>]\<rparr>)"
  by (simp add: send_otp_def Let_def)

text \<open>
  C4 does not hold of the code: the claim is that the answer of send-otp never contains the
  generated code. Evaluated at the draw \<open>1/2\<close>, the JSON answer has a key \<open>otp\<close> whose value
  is the very code stored for the email. The source marks this itself:
  \<^verbatim>\<open>// NOTE: In production REMOVE otp from response\<close>.
\<close>

theorem send_otp_returns_code:
  "body_field ''otp'' (body (fst (send_otp e0 ''a@x.com'' s0))) = Some (JStr ''550000'') \<and>
   map otp (otp_codes (snd (send_otp e0 ''a@x.com'' s0))) = [''550000'']"
proof -
  have "1 \<notin> set (fails e0)" by (simp add: e0_def)
  from send_otp_answer[OF this, of "''a@x.com''" s0] show ?thesis
    by (simp add: sample_otp res_json_def s0_def)
qed

subsection \<open>Uploads of one user, one after the other and interleaved\<close>

lemma newPoints_eq_total: "newPoints p = total p + 50"
  by (simp add: newPoints_def total_def split: option.splits)

lemma run_append: "run (a @ b) ts s = (case run a ts s of (ts', s') \<Rightarrow> run b ts' s')"
  by (induction a arbitrary: ts s) (auto split: prod.splits)

lemma serial_Suc: "serial (Suc k) = serial k @ [k, k]"
  by (simp add: serial_def)

lemma award_both_steps:
  assumes "i < length ts" and "ts ! i = (e, uid, Fetching)"
    and "3 \<notin> set (fails e)" and "4 \<notin> set (fails e)"
    and "filter (\<lambda>u. u_id u = uid) (users s) = [u]" and "int4 (newPoints (points u))"
  shows "run [i, i] ts s =
     (ts[i := (e, uid, Finished)],
      s\<lparr>users := map (\<lambda>v. if u_id v = uid
                          then v\<lparr>points := Some (newPoints (points u)),
                                 level := newLevel (newPoints (points u)) (level u)\<rparr>
                          else v) (users s)\<rparr>)"
proof -
  from assms(3,5) have f: "fetch_points e uid s = (None, Some (points u, level u))"
    by (simp add: fetch_points_def call_def single_def)
  from assms(4,6) have g: "store_points e uid (None, Some (points u, level u)) s =
      s\<lparr>users := map (\<lambda>v. if u_id v = uid
                          then v\<lparr>points := Some (newPoints (points u)),
                                 level := newLevel (newPoints (points u)) (level u)\<rparr>
                          else v) (users s)\<rparr>"
    by (simp add: store_points_def update_points_def Let_def)
  from assms(1,2) f g show ?thesis
    by (simp add: award_step_def)
qed

lemma filter_updated_row:
  assumes "filter (\<lambda>u. u_id u = uid) xs = [u]"
  shows "filter (\<lambda>u. u_id u = uid)
           (map (\<lambda>v. if u_id v = uid then v\<lparr>points := a, level := b\<rparr> else v) xs)
         = [u\<lparr>points := a, level := b\<rparr>]"
proof -
  let ?g = "\<lambda>v. if u_id v = uid then v\<lparr>points := a, level := b\<rparr> else v"
  have "filter (\<lambda>u. u_id u = uid) (map ?g xs) = map ?g (filter (\<lambda>u. u_id u = uid) xs)"
    by (induction xs) auto
  moreover from assms have "u \<in> set (filter (\<lambda>u. u_id u = uid) xs)" by simp
  then have "u_id u = uid" by simp
  ultimately show ?thesis using assms by simp
qed


lemma serial_prefix:
  assumes ts: "\<forall>i<length ts. \<exists>e. ts ! i = (e, uid, Fetching) \<and> 3 \<notin> set (fails e) \<and> 4 \<notin> set (fails e)"
    and u: "filter (\<lambda>u. u_id u = uid) (users s) = [u]"
    and lo: "int4 (newPoints (points u))"
    and hi: "int4 (newPoints (points u) + 50 * (int (length ts) - 1))"
    and k: "k \<le> length ts"
  shows "\<exists>ts' s' u'. run (serial k) ts s = (ts', s') \<and> length ts' = length ts \<and>
           (\<forall>i<length ts. ts' ! i = (if i < k then (fst (ts ! i), uid, Finished) else ts ! i)) \<and>
           filter (\<lambda>u. u_id u = uid) (users s') = [u'] \<and>
           points u' = (if k = 0 then points u else Some (total (points u) + 50 * int k))"
  using k
proof (induction k)
  case 0
  from u show ?case by (simp add: serial_def)
next
  case (Suc k)
  then have kl: "k < length ts" by simp
  with Suc.IH obtain ts' s' u' where
    r: "run (serial k) ts s = (ts', s')" and len: "length ts' = length ts" and
    nth: "\<forall>i<length ts. ts' ! i = (if i < k then (fst (ts ! i), uid, Finished) else ts ! i)" and
    row: "filter (\<lambda>u. u_id u = uid) (users s') = [u']" and
    pts: "points u' = (if k = 0 then points u else Some (total (points u) + 50 * int k))"
    by auto
  from ts kl obtain e where e: "ts ! k = (e, uid, Fetching)" "3 \<notin> set (fails e)" "4 \<notin> set (fails e)"
    by blast
  from nth kl e(1) have tk: "ts' ! k = (e, uid, Fetching)" by simp
  have np: "newPoints (points u') = total (points u) + 50 * int (Suc k)"
    using pts by (cases "k = 0") (simp_all add: newPoints_eq_total total_def)
  have range: "int4 (newPoints (points u'))"
  proof -
    have "newPoints (points u) \<le> newPoints (points u') "
      using np by (simp add: newPoints_eq_total)
    moreover have "newPoints (points u') \<le> newPoints (points u) + 50 * (int (length ts) - 1)"
      using np kl by (simp add: newPoints_eq_total)
    ultimately show ?thesis using lo hi by (simp add: int4_def)
  qed
  let ?a = "Some (newPoints (points u'))" and ?b = "newLevel (newPoints (points u')) (level u')"
  let ?s'' = "s'\<lparr>users := map (\<lambda>v. if u_id v = uid then v\<lparr>points := ?a, level := ?b\<rparr> else v) (users s')\<rparr>"
  from kl len have kl': "k < length ts'" by simp
  have step: "run [k, k] ts' s' = (ts'[k := (e, uid, Finished)], ?s'')"
    by (rule award_both_steps[OF kl' tk e(2,3) row range])
  have "run (serial (Suc k)) ts s = (ts'[k := (e, uid, Finished)], ?s'')"
    by (simp only: serial_Suc run_append r step prod.case)
  moreover have "length (ts'[k := (e, uid, Finished)]) = length ts" using len by simp
  moreover have "\<forall>i<length ts. (ts'[k := (e, uid, Finished)]) ! i
       = (if i < Suc k then (fst (ts ! i), uid, Finished) else ts ! i)"
  proof (intro allI impI)
    fix i assume i: "i < length ts"
    show "(ts'[k := (e, uid, Finished)]) ! i = (if i < Suc k then (fst (ts ! i), uid, Finished) else ts ! i)"
    proof (cases "i = k")
      case True
      with kl' e(1) show ?thesis by simp
    next
      case False
      with nth i show ?thesis by (simp add: less_Suc_eq)
    qed
  qed
  moreover have "filter (\<lambda>u. u_id u = uid) (users ?s'') = [u'\<lparr>points := ?a, level := ?b\<rparr>]"
    using filter_updated_row[OF row] by simp
  moreover have "points (u'\<lparr>points := ?a, level := ?b\<rparr>)
       = (if Suc k = 0 then points u else Some (total (points u) + 50 * int (Suc k)))"
    using np by simp
  ultimately show ?case by blast
qed

text \<open>
  C1, as the code has it. \<open>n \<ge> 1\<close> requests in their points update for the same user, run
  one after the other (each reads and writes before the next reads), every store call
  answered and the totals within the column's range: all finish, and the stored total
  has grown by exactly \<open>50 * n\<close> (a null total counting as 0).
\<close>

theorem serial_awards_add_up:
  assumes "0 < length ts"
    and "\<forall>t \<in> set ts. snd t = (uid, Fetching) \<and> 3 \<notin> set (fails (fst t)) \<and> 4 \<notin> set (fails (fst t))"
    and "points_of uid s = [p]"
    and "int4 (newPoints p)" and "int4 (newPoints p + 50 * (int (length ts) - 1))"
  shows "all_finished (fst (run (serial (length ts)) ts s)) \<and>
         points_of uid (snd (run (serial (length ts)) ts s)) = [Some (total p + 50 * int (length ts))]"
proof -
  from assms(3) obtain u where u: "filter (\<lambda>u. u_id u = uid) (users s) = [u]" "points u = p"
    by (auto simp: points_of_def)
  have ts: "\<forall>i<length ts. \<exists>e. ts ! i = (e, uid, Fetching) \<and> 3 \<notin> set (fails e) \<and> 4 \<notin> set (fails e)"
  proof (intro allI impI)
    fix i assume "i < length ts"
    then have "ts ! i \<in> set ts" by simp
    with assms(2) have "snd (ts ! i) = (uid, Fetching) \<and> 3 \<notin> set (fails (fst (ts ! i))) \<and>
        4 \<notin> set (fails (fst (ts ! i)))" by blast
    then show "\<exists>e. ts ! i = (e, uid, Fetching) \<and> 3 \<notin> set (fails e) \<and> 4 \<notin> set (fails e)"
      by (metis prod.collapse)
  qed
  from serial_prefix[OF ts u(1) _ _ le_refl] assms(4,5) u(2)
  obtain ts' s' u' where
    r: "run (serial (length ts)) ts s = (ts', s')" and len: "length ts' = length ts" and
    nth: "\<forall>i<length ts. ts' ! i = (if i < length ts then (fst (ts ! i), uid, Finished) else ts ! i)" and
    row: "filter (\<lambda>u. u_id u = uid) (users s') = [u']" and
    pts: "points u' = (if length ts = 0 then points u else Some (total (points u) + 50 * int (length ts)))"
    by blast
  from nth len have "all_finished ts'"
    by (simp add: all_finished_def list_all_length)
  moreover from row pts assms(1) u(2) have "points_of uid s' = [Some (total p + 50 * int (length ts))]"
    by (simp add: points_of_def)
  ultimately show ?thesis using r by simp
qed


lemma sample_points: "points_of 1 s0 = [Some 0]"
  by (simp add: points_of_def s0_def alice_def)

lemma sample_tasks:
  "\<forall>t \<in> set (replicate n (e0, 1, Fetching)).
     snd t = (1, Fetching) \<and> 3 \<notin> set (fails (fst t)) \<and> 4 \<notin> set (fails (fst t))"
  by (simp add: e0_def)

theorem serial_awards_add_up_witness:
  "points_of 1 s0 = [Some 0] \<and>
   all_finished (fst (run (serial 1) (replicate 1 (e0, 1, Fetching)) s0)) \<and>
   points_of 1 (snd (run (serial 1) (replicate 1 (e0, 1, Fetching)) s0)) = [Some 50] \<and>
   all_finished (fst (run (serial 2) (replicate 2 (e0, 1, Fetching)) s0)) \<and>
   points_of 1 (snd (run (serial 2) (replicate 2 (e0, 1, Fetching)) s0)) = [Some 100] \<and>
   all_finished (fst (run (serial 10) (replicate 10 (e0, 1, Fetching)) s0)) \<and>
   points_of 1 (snd (run (serial 10) (replicate 10 (e0, 1, Fetching)) s0)) = [Some 500]"
proof -
  have r: "int4 (newPoints (Some 0))" "int4 (newPoints (Some 0) + 50 * (int (length (replicate 1 (e0, 1::nat, Fetching))) - 1))"
    "int4 (newPoints (Some 0) + 50 * (int (length (replicate 2 (e0, 1::nat, Fetching))) - 1))"
    "int4 (newPoints (Some 0) + 50 * (int (length (replicate 10 (e0, 1::nat, Fetching))) - 1))"
    by (simp_all add: int4_def newPoints_def)
  have l: "0 < length (replicate 1 (e0, 1::nat, Fetching))" "0 < length (replicate 2 (e0, 1::nat, Fetching))"
    "0 < length (replicate 10 (e0, 1::nat, Fetching))" by simp_all
  from serial_awards_add_up[OF l(1) sample_tasks sample_points r(1) r(2)]
    serial_awards_add_up[OF l(2) sample_tasks sample_points r(1) r(3)]
    serial_awards_add_up[OF l(3) sample_tasks sample_points r(1) r(4)]
    sample_points
  show ?thesis by (simp add: total_def)
qed

lemma interleaved_run:
  "run [0, 1, 0, 1] [(e0, 1, Fetching), (e0, 1, Fetching)] s0
     = ([(e0, 1, Finished), (e0, 1, Finished)], s0\<lparr>users := [alice\<lparr>points := Some 50\<rparr>]\<rparr>)"
proof -
  have f: "fetch_points e0 1 s0 = (None, Some (Some 0, Some ''Silver''))" by (rule sample_fetch)
  have w1: "store_points e0 1 (None, Some (Some 0, Some ''Silver'')) s0
      = s0\<lparr>users := [alice\<lparr>points := Some 50\<rparr>]\<rparr>"
    by (simp add: store_points_def update_points_def int4_def newPoints_def newLevel_def Let_def
        e0_def s0_def alice_def)
  have w2: "store_points e0 1 (None, Some (Some 0, Some ''Silver'')) (s0\<lparr>users := [alice\<lparr>points := Some 50\<rparr>]\<rparr>)
      = s0\<lparr>users := [alice\<lparr>points := Some 50\<rparr>]\<rparr>"
    by (simp add: store_points_def update_points_def int4_def newPoints_def newLevel_def Let_def
        e0_def s0_def alice_def)
  from f w1 w2 show ?thesis
    by (simp add: award_step_def)
qed

text \<open>
  C1 as stated fails: two requests of the same user, both reading before either writes.
  Both finish; the total goes from 0 to 50, not to 100. The update is a read and a later
  write of the value read plus 50, and nothing orders the requests between the two.
\<close>

theorem interleaved_awards_counterexample:
  "points_of 1 s0 = [Some 0] \<and>
   all_finished (fst (run [0, 1, 0, 1] [(e0, 1, Fetching), (e0, 1, Fetching)] s0)) \<and>
   points_of 1 (snd (run [0, 1, 0, 1] [(e0, 1, Fetching), (e0, 1, Fetching)] s0)) = [Some 50]"
  unfolding interleaved_run
  by (simp add: all_finished_def points_of_def s0_def alice_def)

subsection \<open>Search\<close>































end
